theory Spec2Isabelle
  imports Main "HOL-Library.AList"
begin

section \<open>Data model of the wallet (wallet.ts)\<close>

text \<open>
  A Node \<open>Buffer\<close> is a byte string, compared by content (\<open>Buffer.equals\<close>).
  JavaScript numbers that hold block sequences, note indices and confirmations are
  integers; \<open>bigint\<close> note values are unbounded integers. \<open>null\<close> and \<open>undefined\<close>
  are both \<open>None\<close>.
\<close>

type_synonym buffer = "nat list"

datatype TransactionStatus = CONFIRMED | EXPIRED | PENDING | UNCONFIRMED | UNKNOWN

text \<open>The head of an account: \<open>{hash, sequence}\<close>, or \<open>null\<close> (\<open>None\<close>).\<close>

record head =
  head_hash :: buffer
  head_sequence :: int

text \<open>What the wallet reads of a \<open>BlockHeader\<close>.\<close>

record blockHeader =
  bh_hash :: buffer
  bh_previousBlockHash :: buffer
  bh_sequence :: int

text \<open>
  What the wallet reads of a \<open>Transaction\<close>: \<open>hash()\<close>, the notes (each by its
  \<open>serialize()\<close>), \<open>expiration()\<close> and \<open>isMinersFee()\<close>.
\<close>

record transaction =
  tx_hash :: buffer
  tx_notes :: "buffer list"
  tx_expiration :: int
  tx_isMinersFee :: bool

text \<open>\<open>TransactionValue\<close>, the record the wallet database keeps of a transaction.\<close>

record transactionValue =
  tv_transaction :: transaction
  tv_blockHash :: "buffer option"
  tv_sequence :: "int option"
  tv_submittedSequence :: int

text \<open>The key material of an \<open>Account\<close>; its persisted state lives in the wallet database.\<close>

record account =
  acc_id :: string
  acc_name :: string
  acc_incomingViewKey :: string
  acc_outgoingViewKey :: string
  acc_spendingKey :: string
  acc_publicAddress :: string

text \<open>
  The truth value JavaScript gives a \<open>number | null | undefined\<close> in a condition:
  \<open>null\<close>, \<open>undefined\<close> and \<open>0\<close> are false (\<open>NaN\<close> does not occur among integers).
\<close>

definition truthy :: "int option \<Rightarrow> bool" where
  "truthy v = (case v of None \<Rightarrow> False | Some n \<Rightarrow> n \<noteq> 0)"

text \<open>
  \<open>if (v) { f(v) } else { g }\<close> for such a \<open>v\<close>: in the first branch \<open>v\<close> is a number.
\<close>

definition ifTruthy :: "int option \<Rightarrow> (int \<Rightarrow> 'a) \<Rightarrow> 'a \<Rightarrow> 'a" where
  "ifTruthy v f g = (case v of None \<Rightarrow> g | Some n \<Rightarrow> if truthy (Some n) then f n else g)"

text \<open>
  \<open>BufferUtils.equalsNullable\<close> (../utils, not among the sources): equality of two
  buffers of which either may be \<open>null\<close>; two \<open>null\<close>s are equal, a \<open>null\<close> and a
  buffer are not.
\<close>

definition equalsNullable :: "buffer option \<Rightarrow> buffer option \<Rightarrow> bool" where
  "equalsNullable a b = (a = b)"

section \<open>Transaction status (getTransactionStatus)\<close>

text \<open>
  Modelled from the spec: \<open>isExpiredSequence\<close> is imported from ../consensus, which is
  not among the sources. The spec says an unmined transaction past its expiration is
  expired, and that an expiration exactly equal to the head sequence is expired, not
  pending.
\<close>

definition isExpiredSequence :: "int \<Rightarrow> int \<Rightarrow> bool" where
  "isExpiredSequence expiration sequence = (expiration \<le> sequence)"

text \<open>The optional \<open>options\<close> argument: \<open>{headSequence?: number | null, confirmations?: number}\<close>.\<close>

record statusOptions =
  opt_headSequence :: "int option"
  opt_confirmations :: "int option"

text \<open>\<open>options?.confirmations ?? this.config.get('confirmations')\<close>\<close>

definition confirmationsOf :: "int \<Rightarrow> statusOptions option \<Rightarrow> int" where
  "confirmationsOf configConfirmations options =
     (case Option.bind options opt_confirmations of
        Some c \<Rightarrow> c
      | None \<Rightarrow> configConfirmations)"

text \<open>\<open>options?.headSequence ?? (await account.getHead(tx))?.sequence\<close>\<close>

definition headSequenceOf :: "head option \<Rightarrow> statusOptions option \<Rightarrow> int option" where
  "headSequenceOf accountHead options =
     (case Option.bind options opt_headSequence of
        Some h \<Rightarrow> Some h
      | None \<Rightarrow> map_option head_sequence accountHead)"

text \<open>
  \<open>getTransactionStatus(account, transaction, options)\<close>; \<open>configConfirmations\<close> is the
  configured default and \<open>accountHead\<close> what \<open>account.getHead\<close> returns. Both
  \<open>if (!headSequence)\<close> and \<open>if (transaction.sequence)\<close> test truthiness.
\<close>

definition getTransactionStatus ::
  "int \<Rightarrow> head option \<Rightarrow> transactionValue \<Rightarrow> statusOptions option \<Rightarrow> TransactionStatus" where
  "getTransactionStatus configConfirmations accountHead transaction options =
     (let confirmations = confirmationsOf configConfirmations options;
          headSequence = headSequenceOf accountHead options
      in ifTruthy headSequence
           (\<lambda>h. ifTruthy (tv_sequence transaction)
                  (\<lambda>s. if h - s \<ge> confirmations then CONFIRMED else UNCONFIRMED)
                  (if isExpiredSequence (tx_expiration (tv_transaction transaction)) h
                   then EXPIRED else PENDING))
           UNKNOWN)"

section \<open>The collaborators the wallet calls\<close>

text \<open>
  The payload of one trial decryption (\<open>DecryptNoteOptions\<close>) and its result
  (\<open>DecryptedNote\<close>, declared in ../workerPool/tasks/decryptNotes; the wallet passes it
  on without reading it).
\<close>

record decryptNoteOptions =
  serializedNote :: buffer
  incomingViewKey :: string
  outgoingViewKey :: string
  spendingKey :: string
  currentNoteIndex :: "int option"

record decryptedNote =
  dn_index :: "int option"
  dn_forSpender :: bool
  dn_hash :: buffer
  dn_nullifier :: "buffer option"
  dn_serializedNote :: buffer

text \<open>
  A \<open>RawTransaction\<close> as \<open>createTransaction\<close> fills it; \<open>postTransaction\<close> only hands it
  to the worker pool.
\<close>

record rawTransaction =
  raw_spendingKey :: string
  raw_expiration :: int
  raw_fee :: int
  raw_receives :: "buffer list"
  raw_spends :: "buffer list"

text \<open>
  The worker pool: what \<open>decryptNotes\<close> and \<open>postTransaction\<close> answer, and the log of
  the payload batches submitted to \<open>decryptNotes\<close>, oldest first.
\<close>

record workerPool =
  wp_decryptNotes :: "decryptNoteOptions list \<Rightarrow> decryptedNote option list"
  wp_postTransaction :: "rawTransaction \<Rightarrow> transaction"
  wp_submitted :: "decryptNoteOptions list list"

text \<open>A \<open>NoteWitness\<close> of the commitment tree.\<close>

record noteWitness =
  nw_treeSize :: nat
  nw_rootHash :: buffer

text \<open>
  The \<open>Blockchain\<close> as the wallet reads it: \<open>head\<close>, \<open>synced\<close>, \<open>genesis\<close>,
  \<open>getHeader\<close>, \<open>getBlockTransactions\<close> (each transaction with its
  \<open>initialNoteIndex\<close>), \<open>nullifiers.contains\<close>, \<open>notes.witness\<close> and the \<open>valid\<close> flag
  of the verifier's two answers.
\<close>

record chain =
  chain_head :: blockHeader
  chain_synced :: bool
  chain_genesis :: blockHeader
  chain_getHeader :: "buffer \<Rightarrow> blockHeader option"
  chain_getBlockTransactions :: "blockHeader \<Rightarrow> (transaction \<times> int option) list"
  chain_nullifiers_contains :: "buffer \<Rightarrow> bool"
  chain_notes_witness :: "int \<Rightarrow> noteWitness option"
  chain_verifyCreatedTransaction :: "transaction \<Rightarrow> bool"
  chain_verifyTransactionAdd :: "transaction \<Rightarrow> bool"

section \<open>The state of the wallet\<close>

text \<open>
  The methods of \<open>Account\<close> (./account, not among the sources) that change an account's
  persisted notes and transactions are recorded as calls, with their arguments.
\<close>

datatype accountCall =
    ConnectTransaction blockHeader transaction "decryptedNote list"
  | DisconnectTransaction blockHeader transaction
  | DeleteTransaction transaction
  | AddPendingTransaction transaction "decryptedNote list" int
  | UpdateHead "head option"

text \<open>
  A \<open>ScanState\<close>: the signal of its abort controller, the progress pair, the
  progress events emitted and whether \<open>signalComplete\<close> has run. Another task
  (\<open>scan.abort()\<close>, which \<open>stop\<close> calls) may set the signal while \<open>connectBlock\<close>
  awaits; once set it stays set. \<open>ss_isAborted\<close> is the signal now;
  \<open>ss_abortAfter = Some k\<close> says that the signal is set once \<open>k\<close> more reads of
  \<open>isAborted\<close> have found it clear, \<open>None\<close> that no abort arrives.
\<close>

record scanState =
  ss_isAborted :: bool
  ss_abortAfter :: "nat option"
  ss_sequence :: int
  ss_endSequence :: int
  ss_onTransaction :: "(int \<times> int) list"
  ss_complete :: bool

text \<open>What the wallet reads of a \<open>Note\<close>: \<open>value()\<close>, \<open>assetId()\<close> and \<open>serialize()\<close>.\<close>

record Note =
  note_value :: int
  note_assetId :: buffer
  note_serialized :: buffer

text \<open>\<open>DecryptedNoteValue & {hash}\<close>, a note of an account as the wallet database keeps it.\<close>

record decryptedNoteValue =
  dnv_note :: Note
  dnv_index :: "int option"
  dnv_nullifier :: "buffer option"
  dnv_spent :: bool
  dnv_hash :: buffer

text \<open>
  The wallet with its database. \<open>accounts\<close> is the \<open>Map\<close> of loaded accounts in
  insertion order. Per account id the database (the \<open>db_\<close> fields) holds the account
  (\<open>walletDb.setAccount\<close>), the head (\<open>account.getHead\<close>, \<open>account.updateHead\<close>), the
  calls made on the account grouped by database transaction (\<open>db_journal\<close>, oldest
  first), the transaction records by transaction hash (\<open>walletDb.saveTransaction\<close>)
  and the decrypted notes by note hash (\<open>walletDb.saveDecryptedNote\<close>). The three events
  are the lists of what has been emitted, oldest first. \<open>eventLoopAborted\<close> is the signal
  of \<open>eventLoopAbortController\<close> now; \<open>stop\<close> may set it while a method of the event
  loop awaits, and \<open>eventLoopAbortAfter = Some k\<close> says that it is set once \<open>k\<close> more
  reads have found it clear, \<open>None\<close> that it is not set.
\<close>

record wallet =
  accounts :: "account list"
  defaultAccount :: "string option"
  db_accounts :: "string \<Rightarrow> account option"
  db_heads :: "string \<Rightarrow> head option"
  db_journal :: "string \<Rightarrow> accountCall list list"
  db_transactions :: "string \<Rightarrow> buffer \<Rightarrow> transactionValue option"
  db_decryptedNotes :: "string \<Rightarrow> buffer \<Rightarrow> decryptedNoteValue option"
  scan :: "scanState option"
  chainProcessor_hash :: "buffer option"
  chainProcessor_sequence :: "int option"
  rebroadcastAfter :: int
  isStarted :: bool
  eventLoopAborted :: bool
  eventLoopAbortAfter :: "nat option"
  onBroadcastTransaction :: "transaction list"
  onTransactionCreated :: "transaction list"
  onAccountImported :: "account list"

definition listAccounts :: "wallet \<Rightarrow> account list" where
  "listAccounts w = accounts w"

definition getHead :: "wallet \<Rightarrow> account \<Rightarrow> head option" where
  "getHead w a = db_heads w (acc_id a)"

text \<open>\<open>isAccountUpToDate\<close>: the head read is never \<open>undefined\<close>, so its assertion holds.\<close>

definition isAccountUpToDate :: "wallet \<Rightarrow> account \<Rightarrow> bool" where
  "isAccountUpToDate w a =
     equalsNullable (map_option head_hash (getHead w a)) (chainProcessor_hash w)"

section \<open>Note decryption (decryptNotes)\<close>

definition batchSize :: nat where
  "batchSize = 20"

text \<open>
  \<open>decryptNotesFromTransaction\<close>: submit one batch to the worker pool and keep the
  results that are not \<open>null\<close>.
\<close>

definition decryptNotesFromTransaction ::
  "workerPool \<Rightarrow> decryptNoteOptions list \<Rightarrow> decryptedNote list \<times> workerPool" where
  "decryptNotesFromTransaction wp decryptNotesPayloads =
     (List.map_filter (\<lambda>r. r) (wp_decryptNotes wp decryptNotesPayloads),
      wp\<lparr>wp_submitted := wp_submitted wp @ [decryptNotesPayloads]\<rparr>)"

text \<open>
  The loop over \<open>transaction.notes\<close> for one account. The state is
  \<open>(decryptedNotes, decryptNotesPayloads, currentNoteIndex)\<close> and the worker pool.
  \<open>if (currentNoteIndex) { currentNoteIndex++ }\<close> is a truthiness test.
\<close>

fun decryptNotesLoop ::
  "account \<Rightarrow> buffer list \<Rightarrow>
   decryptedNote list \<times> decryptNoteOptions list \<times> int option \<times> workerPool \<Rightarrow>
   decryptedNote list \<times> decryptNoteOptions list \<times> int option \<times> workerPool" where
  "decryptNotesLoop a [] st = st"
| "decryptNotesLoop a (note # notes) (decryptedNotes, payloads, idx, wp) =
     (let payloads1 = payloads @
            [\<lparr>serializedNote = note,
              incomingViewKey = acc_incomingViewKey a,
              outgoingViewKey = acc_outgoingViewKey a,
              spendingKey = acc_spendingKey a,
              currentNoteIndex = idx\<rparr>];
          idx1 = ifTruthy idx (\<lambda>n. Some (n + 1)) idx
      in if length payloads1 \<ge> batchSize
         then (case decryptNotesFromTransaction wp payloads1 of
                 (decryptedNotesBatch, wp1) \<Rightarrow>
                   decryptNotesLoop a notes (decryptedNotes @ decryptedNotesBatch, [], idx1, wp1))
         else decryptNotesLoop a notes (decryptedNotes, payloads1, idx1, wp))"

text \<open>The body of the loop over the accounts to check: the notes decrypted for one account.\<close>

definition decryptNotesOf ::
  "account \<Rightarrow> transaction \<Rightarrow> int option \<Rightarrow> workerPool \<Rightarrow> decryptedNote list \<times> workerPool" where
  "decryptNotesOf a t initialNoteIndex wp =
     (case decryptNotesLoop a (tx_notes t) ([], [], initialNoteIndex, wp) of
        (decryptedNotes, payloads, idx, wp1) \<Rightarrow>
          if payloads \<noteq> []
          then (case decryptNotesFromTransaction wp1 payloads of
                  (decryptedNotesBatch, wp2) \<Rightarrow> (decryptedNotes @ decryptedNotesBatch, wp2))
          else (decryptedNotes, wp1))"

text \<open>
  The loop over the accounts; the result is the \<open>Map\<close> from account id to decrypted
  notes, in insertion order, with an entry only where some note was decrypted.
\<close>

fun decryptNotesAccounts ::
  "account list \<Rightarrow> transaction \<Rightarrow> int option \<Rightarrow>
   (string \<times> decryptedNote list) list \<times> workerPool \<Rightarrow>
   (string \<times> decryptedNote list) list \<times> workerPool" where
  "decryptNotesAccounts [] t initialNoteIndex st = st"
| "decryptNotesAccounts (a # as) t initialNoteIndex (byAccountId, wp) =
     (case decryptNotesOf a t initialNoteIndex wp of
        (decryptedNotes, wp1) \<Rightarrow>
          decryptNotesAccounts as t initialNoteIndex
            (if decryptedNotes \<noteq> []
             then AList.update (acc_id a) decryptedNotes byAccountId
             else byAccountId, wp1))"

text \<open>
  \<open>decryptNotes(transaction, initialNoteIndex, accounts?)\<close>: without \<open>accounts\<close>, the
  loaded accounts that are up to date are checked.
\<close>

definition decryptNotes ::
  "wallet \<Rightarrow> workerPool \<Rightarrow> transaction \<Rightarrow> int option \<Rightarrow> account list option \<Rightarrow>
   (string \<times> decryptedNote list) list \<times> workerPool" where
  "decryptNotes w wp t initialNoteIndex accs =
     (let accountsToCheck =
            (case accs of
               Some as \<Rightarrow> as
             | None \<Rightarrow> filter (isAccountUpToDate w) (listAccounts w))
      in decryptNotesAccounts accountsToCheck t initialNoteIndex ([], wp))"

text \<open>
  For stating which payloads are built: the payload of the note at position \<open>j\<close> of a
  transaction with \<open>currentNoteIndex = initialNoteIndex + j\<close>, or \<open>null\<close> when
  \<open>initialNoteIndex\<close> is \<open>null\<close>.
\<close>

definition payloadOf :: "account \<Rightarrow> int option \<Rightarrow> nat \<times> buffer \<Rightarrow> decryptNoteOptions" where
  "payloadOf a initialNoteIndex jn =
     \<lparr>serializedNote = snd jn,
      incomingViewKey = acc_incomingViewKey a,
      outgoingViewKey = acc_outgoingViewKey a,
      spendingKey = acc_spendingKey a,
      currentNoteIndex = map_option (\<lambda>i. i + int (fst jn)) initialNoteIndex\<rparr>"

section \<open>Spend selection (createSpends, createSpendsForAsset)\<close>

text \<open>The errors the modelled methods throw.\<close>

datatype walletError =
    AssertionFailed
  | NotEnoughFundsError buffer int int
  | InvalidTransaction

text \<open>
  \<open>checkNoteOnChainAndRepair\<close>: true when the note's nullifier is in the chain's
  nullifier set; then the note, if the account has it, is saved with \<open>spent: true\<close>.
\<close>

definition checkNoteOnChainAndRepair ::
  "chain \<Rightarrow> account \<Rightarrow> decryptedNoteValue \<Rightarrow> wallet \<Rightarrow> bool \<times> wallet" where
  "checkNoteOnChainAndRepair ch sender unspentNote w =
     (case dnv_nullifier unspentNote of
        None \<Rightarrow> (False, w)
      | Some nf \<Rightarrow>
          if \<not> chain_nullifiers_contains ch nf then (False, w)
          else (case db_decryptedNotes w (acc_id sender) (dnv_hash unspentNote) of
                  Some noteMapValue \<Rightarrow>
                    (True,
                     w\<lparr>db_decryptedNotes := (db_decryptedNotes w)
                         (acc_id sender := (db_decryptedNotes w (acc_id sender))
                            (dnv_hash unspentNote := Some (noteMapValue\<lparr>dnv_spent := True\<rparr>)))\<rparr>)
                | None \<Rightarrow> (True, w)))"

text \<open>
  The loop of \<open>createSpendsForAsset\<close> over the notes that \<open>getUnspentNotes\<close> yields,
  with the state \<open>(amount, notes)\<close> and the wallet. \<open>Assert.isNotNull\<close> (../assert, not
  among the sources) is a TypeScript assertion function: it throws when its argument
  is \<open>null\<close>. A write of the repair check made before a throw stays in the database,
  so the wallet is returned beside the result.
\<close>

fun createSpendsLoop ::
  "chain \<Rightarrow> account \<Rightarrow> int \<Rightarrow> decryptedNoteValue list \<Rightarrow>
   int \<times> (Note \<times> noteWitness) list \<Rightarrow> wallet \<Rightarrow>
   (walletError + int \<times> (Note \<times> noteWitness) list) \<times> wallet" where
  "createSpendsLoop ch sender amountNeeded [] (amount, notes) w = (Inr (amount, notes), w)"
| "createSpendsLoop ch sender amountNeeded (unspentNote # rest) (amount, notes) w =
     (if note_value (dnv_note unspentNote) \<le> 0
      then createSpendsLoop ch sender amountNeeded rest (amount, notes) w
      else case dnv_index unspentNote of
        None \<Rightarrow> (Inl AssertionFailed, w)
      | Some index \<Rightarrow>
         (case dnv_nullifier unspentNote of
            None \<Rightarrow> (Inl AssertionFailed, w)
          | Some nullifier \<Rightarrow>
             (case checkNoteOnChainAndRepair ch sender unspentNote w of
                (True, w1) \<Rightarrow> createSpendsLoop ch sender amountNeeded rest (amount, notes) w1
              | (False, w1) \<Rightarrow>
                 (case chain_notes_witness ch index of
                    None \<Rightarrow> createSpendsLoop ch sender amountNeeded rest (amount, notes) w1
                  | Some witness \<Rightarrow>
                      (let notes1 = notes @ [(dnv_note unspentNote, witness)];
                           amount1 = amount + note_value (dnv_note unspentNote)
                       in if amount1 \<ge> amountNeeded then (Inr (amount1, notes1), w1)
                          else createSpendsLoop ch sender amountNeeded rest (amount1, notes1) w1)))))"

text \<open>
  \<open>createSpendsForAsset\<close>. \<open>unspent\<close> stands for \<open>account.getUnspentNotes\<close> (./account,
  not among the sources): the notes it yields for an account and an asset at the
  configured confirmations, in its order.
\<close>

definition createSpendsForAsset ::
  "chain \<Rightarrow> (account \<Rightarrow> buffer \<Rightarrow> decryptedNoteValue list) \<Rightarrow> account \<Rightarrow> buffer \<Rightarrow> int \<Rightarrow> wallet \<Rightarrow>
   (walletError + int \<times> (Note \<times> noteWitness) list) \<times> wallet" where
  "createSpendsForAsset ch unspent sender assetId amountNeeded w =
     createSpendsLoop ch sender amountNeeded (unspent sender assetId) (0, []) w"

text \<open>
  \<open>createSpends\<close>: the loop over the entries of \<open>amountsNeeded\<close> (a \<open>BufferMap\<close>, here
  the list of its entries), with \<open>notesToSpend\<close> as state.
\<close>

fun createSpendsEntries ::
  "chain \<Rightarrow> (account \<Rightarrow> buffer \<Rightarrow> decryptedNoteValue list) \<Rightarrow> account \<Rightarrow> (buffer \<times> int) list \<Rightarrow>
   (Note \<times> noteWitness) list \<Rightarrow> wallet \<Rightarrow>
   (walletError + (Note \<times> noteWitness) list) \<times> wallet" where
  "createSpendsEntries ch unspent sender [] notesToSpend w = (Inr notesToSpend, w)"
| "createSpendsEntries ch unspent sender ((assetId, amountNeeded) # entries) notesToSpend w =
     (case createSpendsForAsset ch unspent sender assetId amountNeeded w of
        (Inl e, w1) \<Rightarrow> (Inl e, w1)
      | (Inr (amount, notes), w1) \<Rightarrow>
          if amount < amountNeeded
          then (Inl (NotEnoughFundsError assetId amount amountNeeded), w1)
          else createSpendsEntries ch unspent sender entries (notesToSpend @ notes) w1)"

definition createSpends ::
  "chain \<Rightarrow> (account \<Rightarrow> buffer \<Rightarrow> decryptedNoteValue list) \<Rightarrow> account \<Rightarrow> (buffer \<times> int) list \<Rightarrow>
   wallet \<Rightarrow> (walletError + (Note \<times> noteWitness) list) \<times> wallet" where
  "createSpends ch unspent sender amountsNeeded w =
     createSpendsEntries ch unspent sender amountsNeeded [] w"

text \<open>
  The words of the selection rule, for stating what the loop computes: a note's
  nullifier is on the chain; a witness can be produced for it; the note is consumed
  (positive value, not on the chain, with a witness); the note is repaired (positive
  value and on the chain). \<open>markSpent\<close> sets the \<open>spent\<close> flag of the account's stored
  note with that hash, if there is one.
\<close>

definition onChain :: "chain \<Rightarrow> decryptedNoteValue \<Rightarrow> bool" where
  "onChain ch u = (case dnv_nullifier u of None \<Rightarrow> False | Some nf \<Rightarrow> chain_nullifiers_contains ch nf)"

definition witnessOf :: "chain \<Rightarrow> decryptedNoteValue \<Rightarrow> noteWitness option" where
  "witnessOf ch u = (case dnv_index u of None \<Rightarrow> None | Some i \<Rightarrow> chain_notes_witness ch i)"

definition spendable :: "chain \<Rightarrow> decryptedNoteValue \<Rightarrow> bool" where
  "spendable ch u = (0 < note_value (dnv_note u) \<and> \<not> onChain ch u \<and> witnessOf ch u \<noteq> None)"

definition repaired :: "chain \<Rightarrow> decryptedNoteValue \<Rightarrow> bool" where
  "repaired ch u = (0 < note_value (dnv_note u) \<and> onChain ch u)"

definition spendOf :: "chain \<Rightarrow> decryptedNoteValue \<Rightarrow> (Note \<times> noteWitness) option" where
  "spendOf ch u = map_option (Pair (dnv_note u)) (witnessOf ch u)"

definition markSpent :: "account \<Rightarrow> decryptedNoteValue \<Rightarrow> wallet \<Rightarrow> wallet" where
  "markSpent sender u w =
     (case db_decryptedNotes w (acc_id sender) (dnv_hash u) of
        None \<Rightarrow> w
      | Some v \<Rightarrow>
          w\<lparr>db_decryptedNotes := (db_decryptedNotes w)
              (acc_id sender := (db_decryptedNotes w (acc_id sender))
                 (dnv_hash u := Some (v\<lparr>dnv_spent := True\<rparr>)))\<rparr>)"

text \<open>The notes of a list that have a value above 0 are mined: index and nullifier are set.\<close>

definition mined :: "decryptedNoteValue \<Rightarrow> bool" where
  "mined u = (dnv_index u \<noteq> None \<and> dnv_nullifier u \<noteq> None)"

text \<open>The notes consumed among the notes scanned, and the sum of the values of a list of notes.\<close>

definition selected :: "chain \<Rightarrow> decryptedNoteValue list \<Rightarrow> decryptedNoteValue list" where
  "selected ch scanned = filter (spendable ch) scanned"

definition total :: "decryptedNoteValue list \<Rightarrow> int" where
  "total us = sum_list (map (\<lambda>u. note_value (dnv_note u)) us)"

section \<open>Account heads (getEarliestHeadHash, skipRescan, createAccount, importAccount)\<close>

text \<open>
  The loop of \<open>getEarliestHeadHash\<close> over the loaded accounts, with \<open>earliestHead\<close> as
  state; an account without a head returns \<open>null\<close> at once.
\<close>

fun getEarliestHeadLoop :: "wallet \<Rightarrow> account list \<Rightarrow> head option \<Rightarrow> buffer option" where
  "getEarliestHeadLoop w [] earliestHead = map_option head_hash earliestHead"
| "getEarliestHeadLoop w (a # as) earliestHead =
     (case getHead w a of
        None \<Rightarrow> None
      | Some h \<Rightarrow>
          (case earliestHead of
             None \<Rightarrow> getEarliestHeadLoop w as (Some h)
           | Some e \<Rightarrow>
               if head_sequence e > head_sequence h
               then getEarliestHeadLoop w as (Some h)
               else getEarliestHeadLoop w as (Some e)))"

definition getEarliestHeadHash :: "wallet \<Rightarrow> buffer option" where
  "getEarliestHeadHash w = getEarliestHeadLoop w (accounts w) None"

text \<open>
  The hash \<open>scanTransactions(fromHash?)\<close> begins at:
  \<open>fromHash ? fromHash : startHash ? startHash : this.chain.genesis.hash\<close> with
  \<open>startHash = await this.getEarliestHeadHash()\<close>.
\<close>

definition scanBeginHash :: "chain \<Rightarrow> wallet \<Rightarrow> buffer option \<Rightarrow> buffer" where
  "scanBeginHash ch w fromHash =
     (let startHash = getEarliestHeadHash w
      in case fromHash of
           Some f \<Rightarrow> f
         | None \<Rightarrow> (case startHash of Some st \<Rightarrow> st | None \<Rightarrow> bh_hash (chain_genesis ch)))"

text \<open>\<open>account.updateHead(head, tx)\<close> stores the head of the account.\<close>

definition updateHead :: "account \<Rightarrow> head option \<Rightarrow> wallet \<Rightarrow> wallet" where
  "updateHead a h w = w\<lparr>db_heads := (db_heads w)(acc_id a := h)\<rparr>"

text \<open>
  The commit of a database transaction that made the given calls on an account: the
  calls become one entry of the account's journal. A transaction without a call
  writes nothing.
\<close>

definition commit :: "account \<Rightarrow> accountCall list \<Rightarrow> wallet \<Rightarrow> wallet" where
  "commit a calls w =
     (if calls = [] then w
      else w\<lparr>db_journal := (db_journal w)(acc_id a := db_journal w (acc_id a) @ [calls])\<rparr>)"

definition skipRescan :: "account \<Rightarrow> wallet \<Rightarrow> wallet" where
  "skipRescan a w =
     (case chainProcessor_hash w of
        None \<Rightarrow> updateHead a None w
      | Some hash \<Rightarrow>
          (case chainProcessor_sequence w of
             None \<Rightarrow> updateHead a None w
           | Some sequence \<Rightarrow> updateHead a (Some \<lparr>head_hash = hash, head_sequence = sequence\<rparr>) w))"

fun getAccountByName :: "account list \<Rightarrow> string \<Rightarrow> account option" where
  "getAccountByName [] name = None"
| "getAccountByName (a # as) name = (if name = acc_name a then Some a else getAccountByName as name)"

text \<open>\<open>this.accounts.set(account.id, account)\<close> on the insertion-ordered \<open>Map\<close>.\<close>

fun accountsSet :: "account \<Rightarrow> account list \<Rightarrow> account list" where
  "accountsSet a [] = [a]"
| "accountsSet a (b # bs) = (if acc_id b = acc_id a then a # bs else b # accountsSet a bs)"

text \<open>
  \<open>setDefaultAccount(name)\<close>; \<open>if (name)\<close> is false for \<open>null\<close> and for the empty
  string.
\<close>

datatype accountError = AccountExists string | SpendingKeyExists | NoAccountFound string | InvalidAccount

definition setDefaultAccount :: "string option \<Rightarrow> wallet \<Rightarrow> accountError + wallet" where
  "setDefaultAccount name w =
     (if name = None \<or> name = Some []
      then Inr (w\<lparr>defaultAccount := None\<rparr>)
      else case Option.bind name (getAccountByName (accounts w)) of
             None \<Rightarrow> Inl (NoAccountFound (case name of Some n \<Rightarrow> n | None \<Rightarrow> []))
           | Some next \<Rightarrow>
               if defaultAccount w = Some (acc_id next) then Inr w
               else Inr (w\<lparr>defaultAccount := Some (acc_id next)\<rparr>))"

text \<open>What \<open>generateKey\<close> and \<open>generateKeyFromPrivateKey\<close> return.\<close>

record key =
  spending_key :: string
  incoming_view_key :: string
  outgoing_view_key :: string
  public_address :: string

text \<open>
  \<open>createAccount(name, setDefault)\<close>; \<open>k\<close> is the key \<open>generateKey()\<close> returns and
  \<open>uuid\<close> the id \<open>uuid()\<close> returns.
\<close>

definition createAccount ::
  "key \<Rightarrow> string \<Rightarrow> string \<Rightarrow> bool \<Rightarrow> wallet \<Rightarrow> accountError + account \<times> wallet" where
  "createAccount k uuid name setDefault w =
     (if getAccountByName (accounts w) name \<noteq> None then Inl (AccountExists name)
      else
        let a = \<lparr>acc_id = uuid, acc_name = name,
                 acc_incomingViewKey = incoming_view_key k,
                 acc_outgoingViewKey = outgoing_view_key k,
                 acc_spendingKey = spending_key k,
                 acc_publicAddress = public_address k\<rparr>;
            w1 = skipRescan a (w\<lparr>db_accounts := (db_accounts w)(acc_id a := Some a)\<rparr>);
            w2 = w1\<lparr>accounts := accountsSet a (accounts w1)\<rparr>
        in if setDefault
           then (case setDefaultAccount (Some (acc_name a)) w2 of
                   Inl e \<Rightarrow> Inl e
                 | Inr w3 \<Rightarrow> Inr (a, w3))
           else Inr (a, w2))"

text \<open>
  \<open>importAccount(toImport)\<close> with \<open>toImport = {name, spendingKey}\<close>; \<open>generateKeyFrom\<close>
  stands for \<open>generateKeyFromPrivateKey\<close> and \<open>validateAccount\<close> (./validator, not among
  the sources) for whether the validator accepts the account value.
\<close>

definition importAccount ::
  "(string \<Rightarrow> key) \<Rightarrow> (account \<Rightarrow> bool) \<Rightarrow> string \<Rightarrow> string \<Rightarrow> string \<Rightarrow> wallet \<Rightarrow>
   accountError + account \<times> wallet" where
  "importAccount generateKeyFrom validateAccount uuid toImport_name toImport_spendingKey w =
     (if toImport_name \<noteq> [] \<and> getAccountByName (accounts w) toImport_name \<noteq> None
      then Inl (AccountExists toImport_name)
      else if find (\<lambda>a. toImport_spendingKey = acc_spendingKey a) (listAccounts w) \<noteq> None
      then Inl SpendingKeyExists
      else
        let k = generateKeyFrom toImport_spendingKey;
            a = \<lparr>acc_id = uuid, acc_name = toImport_name,
                 acc_incomingViewKey = incoming_view_key k,
                 acc_outgoingViewKey = outgoing_view_key k,
                 acc_spendingKey = toImport_spendingKey,
                 acc_publicAddress = public_address k\<rparr>
        in if \<not> validateAccount a then Inl InvalidAccount
           else
             let w1 = updateHead a None (w\<lparr>db_accounts := (db_accounts w)(acc_id a := Some a)\<rparr>);
                 w2 = w1\<lparr>accounts := accountsSet a (accounts w1)\<rparr>
             in Inr (a, w2\<lparr>onAccountImported := onAccountImported w2 @ [a]\<rparr>))"

section \<open>Block application (connectBlock, disconnectBlock)\<close>

text \<open>The getter \<open>isAborted\<close>: the value read, and the token after the read.\<close>

definition isAborted :: "scanState \<Rightarrow> bool \<times> scanState" where
  "isAborted st =
     (if ss_isAborted st then (True, st)
      else case ss_abortAfter st of
        None \<Rightarrow> (False, st)
      | Some k \<Rightarrow>
          if k = 0 then (True, st\<lparr>ss_isAborted := True, ss_abortAfter := None\<rparr>)
          else (False, st\<lparr>ss_abortAfter := Some (k - 1)\<rparr>))"

text \<open>\<open>scan && scan.isAborted\<close> for the optional scan token.\<close>

definition scanIsAborted :: "scanState option \<Rightarrow> bool \<times> scanState option" where
  "scanIsAborted sc =
     (case sc of
        None \<Rightarrow> (False, None)
      | Some st \<Rightarrow> (case isAborted st of (aborted, st1) \<Rightarrow> (aborted, Some st1)))"

definition signalComplete :: "scanState \<Rightarrow> scanState" where
  "signalComplete st = st\<lparr>ss_complete := True\<rparr>"

definition signal :: "int \<Rightarrow> scanState \<Rightarrow> scanState" where
  "signal sequence st =
     st\<lparr>ss_sequence := sequence,
        ss_onTransaction := ss_onTransaction st @ [(sequence, ss_endSequence st)]\<rparr>"

text \<open>The filter of \<open>connectBlock\<close> over the loaded accounts.\<close>

definition connectFilter :: "wallet \<Rightarrow> blockHeader \<Rightarrow> account \<Rightarrow> bool" where
  "connectFilter w blockHeader a =
     (case getHead w a of
        None \<Rightarrow> bh_sequence blockHeader = 1
      | Some accountHead \<Rightarrow>
          equalsNullable (Some (head_hash accountHead)) (Some (bh_previousBlockHash blockHeader)))"

text \<open>
  The loop over the transactions of the block inside the database transaction of
  one account. The state is the calls made so far, the scan token and the worker
  pool; the result says first whether the loop returned on an aborted scan. The
  token's abort signal is read before every transaction.
\<close>

fun connectTransactions ::
  "wallet \<Rightarrow> account \<Rightarrow> blockHeader \<Rightarrow> (transaction \<times> int option) list \<Rightarrow>
   accountCall list \<times> scanState option \<times> workerPool \<Rightarrow>
   bool \<times> accountCall list \<times> scanState option \<times> workerPool" where
  "connectTransactions w a blockHeader [] (calls, sc, wp) = (False, calls, sc, wp)"
| "connectTransactions w a blockHeader ((t, initialNoteIndex) # rest) (calls, sc, wp) =
     (case scanIsAborted sc of
        (True, sc1) \<Rightarrow> (True, calls, map_option signalComplete sc1, wp)
      | (False, sc1) \<Rightarrow>
          (case decryptNotes w wp t initialNoteIndex (Some [a]) of
             (decryptedNotesByAccountId, wp1) \<Rightarrow>
               (case map_of decryptedNotesByAccountId (acc_id a) of
                  None \<Rightarrow> connectTransactions w a blockHeader rest (calls, sc1, wp1)
                | Some decryptedNotes \<Rightarrow>
                    connectTransactions w a blockHeader rest
                      (calls @ [ConnectTransaction blockHeader t decryptedNotes],
                       map_option (signal (bh_sequence blockHeader)) sc1, wp1))))"

text \<open>
  The loop over the filtered accounts, one database transaction each. A transaction
  that returned on an aborted scan commits what it did, without the head, and clears
  the wallet's \<open>scan\<close> slot.
\<close>

fun connectAccounts ::
  "chain \<Rightarrow> blockHeader \<Rightarrow> account list \<Rightarrow> wallet \<times> scanState option \<times> workerPool \<Rightarrow>
   wallet \<times> scanState option \<times> workerPool" where
  "connectAccounts ch blockHeader [] st = st"
| "connectAccounts ch blockHeader (a # as) (w, sc, wp) =
     (case connectTransactions w a blockHeader (chain_getBlockTransactions ch blockHeader)
             ([], sc, wp) of
        (True, calls, sc1, wp1) \<Rightarrow>
          connectAccounts ch blockHeader as ((commit a calls w)\<lparr>scan := None\<rparr>, sc1, wp1)
      | (False, calls, sc1, wp1) \<Rightarrow>
          (let h = Some \<lparr>head_hash = bh_hash blockHeader, head_sequence = bh_sequence blockHeader\<rparr>
           in connectAccounts ch blockHeader as
                (commit a (calls @ [UpdateHead h]) (updateHead a h w), sc1, wp1)))"

definition connectBlock ::
  "chain \<Rightarrow> blockHeader \<Rightarrow> scanState option \<Rightarrow> workerPool \<Rightarrow> wallet \<Rightarrow>
   wallet \<times> scanState option \<times> workerPool" where
  "connectBlock ch blockHeader sc wp w =
     connectAccounts ch blockHeader (filter (connectFilter w blockHeader) (listAccounts w))
       (w, sc, wp)"

text \<open>The filter of \<open>disconnectBlock\<close>: \<open>equalsNullable(accountHead?.hash ?? null, header.hash)\<close>.\<close>

definition disconnectFilter :: "wallet \<Rightarrow> blockHeader \<Rightarrow> account \<Rightarrow> bool" where
  "disconnectFilter w header a =
     equalsNullable (map_option head_hash (getHead w a)) (Some (bh_hash header))"

text \<open>The loop over \<open>transactions.slice().reverse()\<close>, with the calls made so far.\<close>

fun disconnectTransactions ::
  "blockHeader \<Rightarrow> (transaction \<times> int option) list \<Rightarrow> accountCall list \<Rightarrow> accountCall list" where
  "disconnectTransactions header [] calls = calls"
| "disconnectTransactions header ((t, initialNoteIndex) # rest) calls =
     disconnectTransactions header rest
       (if tx_isMinersFee t
        then calls @ [DisconnectTransaction header t] @ [DeleteTransaction t]
        else calls @ [DisconnectTransaction header t])"

fun disconnectAccounts :: "chain \<Rightarrow> blockHeader \<Rightarrow> account list \<Rightarrow> wallet \<Rightarrow> wallet" where
  "disconnectAccounts ch header [] w = w"
| "disconnectAccounts ch header (a # as) w =
     (let calls = disconnectTransactions header (rev (chain_getBlockTransactions ch header)) [];
          h = Some \<lparr>head_hash = bh_previousBlockHash header, head_sequence = bh_sequence header - 1\<rparr>
      in disconnectAccounts ch header as (commit a (calls @ [UpdateHead h]) (updateHead a h w)))"

definition disconnectBlock :: "chain \<Rightarrow> blockHeader \<Rightarrow> wallet \<Rightarrow> wallet" where
  "disconnectBlock ch header w =
     disconnectAccounts ch header (filter (disconnectFilter w header) (listAccounts w)) w"

text \<open>
  For stating what the two methods do: what the database holds of one account; the
  notes the worker pool decrypts of a transaction for an account; the calls
  \<open>connectBlock\<close> makes on an account for the transactions of a block, in block order;
  the calls \<open>disconnectBlock\<close> makes for one transaction.
\<close>

definition accountState ::
  "wallet \<Rightarrow> string \<Rightarrow>
   account option \<times> head option \<times> accountCall list list \<times>
   (buffer \<Rightarrow> transactionValue option) \<times> (buffer \<Rightarrow> decryptedNoteValue option)" where
  "accountState w i =
     (db_accounts w i, db_heads w i, db_journal w i, db_transactions w i, db_decryptedNotes w i)"

definition decryptedFor :: "workerPool \<Rightarrow> account \<Rightarrow> transaction \<times> int option \<Rightarrow> decryptedNote list" where
  "decryptedFor wp a ti = fst (decryptNotesOf a (fst ti) (snd ti) wp)"

definition connectCalls ::
  "workerPool \<Rightarrow> account \<Rightarrow> blockHeader \<Rightarrow> (transaction \<times> int option) list \<Rightarrow> accountCall list" where
  "connectCalls wp a blockHeader txs =
     concat (map (\<lambda>ti. if decryptedFor wp a ti = [] then []
                        else [ConnectTransaction blockHeader (fst ti) (decryptedFor wp a ti)]) txs)"

definition disconnectCalls :: "blockHeader \<Rightarrow> transaction \<times> int option \<Rightarrow> accountCall list" where
  "disconnectCalls header ti =
     (if tx_isMinersFee (fst ti)
      then [DisconnectTransaction header (fst ti), DeleteTransaction (fst ti)]
      else [DisconnectTransaction header (fst ti)])"

text \<open>
  For stating when an abort is seen: the number of reads of the abort signal that
  still find it clear (\<open>None\<close>: every read, as when no token is passed).
\<close>

definition readsLeft :: "scanState option \<Rightarrow> nat option" where
  "readsLeft sc =
     (case sc of
        None \<Rightarrow> None
      | Some st \<Rightarrow> if ss_isAborted st then Some 0 else ss_abortAfter st)"

section \<open>Pending transactions (rebroadcastTransactions, addPendingTransaction, postTransaction)\<close>

text \<open>\<open>walletDb.saveTransaction(account, transactionHash, value, tx)\<close>\<close>

definition saveTransaction :: "account \<Rightarrow> buffer \<Rightarrow> transactionValue \<Rightarrow> wallet \<Rightarrow> wallet" where
  "saveTransaction a transactionHash v w =
     w\<lparr>db_transactions := (db_transactions w)
         (acc_id a := (db_transactions w (acc_id a))(transactionHash := Some v))\<rparr>"

definition broadcastTransaction :: "transaction \<Rightarrow> wallet \<Rightarrow> wallet" where
  "broadcastTransaction t w = w\<lparr>onBroadcastTransaction := onBroadcastTransaction w @ [t]\<rparr>"

text \<open>
  \<open>this.eventLoopAbortController.signal.aborted\<close>: the value read, and the wallet
  after the read.
\<close>

definition eventLoopSignal :: "wallet \<Rightarrow> bool \<times> wallet" where
  "eventLoopSignal w =
     (if eventLoopAborted w then (True, w)
      else case eventLoopAbortAfter w of
        None \<Rightarrow> (False, w)
      | Some k \<Rightarrow>
          if k = 0 then (True, w\<lparr>eventLoopAborted := True, eventLoopAbortAfter := None\<rparr>)
          else (False, w\<lparr>eventLoopAbortAfter := Some (k - 1)\<rparr>))"

text \<open>
  The loop of \<open>rebroadcastTransactions\<close> over the records that
  \<open>account.getPendingTransactions(head.sequence)\<close> yields for one account. The result
  says first whether the loop returned on the abort signal of the event loop.
  \<open>if (blockHash)\<close> tests a \<open>Buffer | null\<close>, which is false only for \<open>null\<close>.
\<close>

fun rebroadcastPending ::
  "chain \<Rightarrow> account \<Rightarrow> blockHeader \<Rightarrow> transactionValue list \<Rightarrow> wallet \<Rightarrow> bool \<times> wallet" where
  "rebroadcastPending ch a head [] w = (False, w)"
| "rebroadcastPending ch a head (transactionInfo # rest) w =
     (case eventLoopSignal w of
        (True, w0) \<Rightarrow> (True, w0)
      | (False, w0) \<Rightarrow>
          if tv_blockHash transactionInfo \<noteq> None then rebroadcastPending ch a head rest w0
          else if bh_sequence head - tv_submittedSequence transactionInfo < rebroadcastAfter w0
          then rebroadcastPending ch a head rest w0
          else
            let t = tv_transaction transactionInfo;
                isValid = chain_verifyTransactionAdd ch t;
                w1 = saveTransaction a (tx_hash t)
                       (transactionInfo\<lparr>tv_submittedSequence := bh_sequence head\<rparr>) w0
            in if \<not> isValid then rebroadcastPending ch a head rest w1
               else rebroadcastPending ch a head rest (broadcastTransaction t w1))"

text \<open>
  The loop over the loaded accounts. \<open>pending\<close> stands for
  \<open>account.getPendingTransactions\<close> (./account, not among the sources): the records it
  yields for an account at a head sequence, in its order.
\<close>

fun rebroadcastAccounts ::
  "chain \<Rightarrow> (account \<Rightarrow> int \<Rightarrow> transactionValue list) \<Rightarrow> blockHeader \<Rightarrow> account list \<Rightarrow>
   wallet \<Rightarrow> wallet" where
  "rebroadcastAccounts ch pending head [] w = w"
| "rebroadcastAccounts ch pending head (a # as) w =
     (case eventLoopSignal w of
        (True, w0) \<Rightarrow> w0
      | (False, w0) \<Rightarrow>
          (case rebroadcastPending ch a head (pending a (bh_sequence head)) w0 of
             (True, w1) \<Rightarrow> w1
           | (False, w1) \<Rightarrow> rebroadcastAccounts ch pending head as w1))"


text \<open>
  For stating what the loop does: the abort signal of the event loop is not set and
  will not be; a record is due at a head when it is not in a block and at least
  \<open>rebroadcastAfter\<close> blocks have passed since it was submitted; resubmitting a record
  stores it with the head's sequence as \<open>submittedSequence\<close>.
\<close>

definition eventLoopQuiet :: "wallet \<Rightarrow> bool" where
  "eventLoopQuiet w = (\<not> eventLoopAborted w \<and> eventLoopAbortAfter w = None)"

definition due :: "int \<Rightarrow> blockHeader \<Rightarrow> transactionValue \<Rightarrow> bool" where
  "due after head r = (tv_blockHash r = None \<and> \<not> bh_sequence head - tv_submittedSequence r < after)"

definition resubmit ::
  "blockHeader \<Rightarrow> transactionValue \<Rightarrow> (buffer \<Rightarrow> transactionValue option) \<Rightarrow>
   (buffer \<Rightarrow> transactionValue option)" where
  "resubmit head r m = m(tx_hash (tv_transaction r) := Some (r\<lparr>tv_submittedSequence := bh_sequence head\<rparr>))"

text \<open>
  Modelled from the spec: \<open>account.hasTransaction\<close> and \<open>account.addPendingTransaction\<close>
  are methods of \<open>Account\<close> (./account, not among the sources). The spec keeps per
  account \<open>transactions[txHash]\<close>, a record with \<open>blockHash = null\<close> and \<open>sequence = null\<close>
  while pending, created by \<open>addPendingTransaction\<close> with the submitted sequence. The
  call is also recorded in the journal, with the decrypted notes.
\<close>

definition hasTransaction :: "wallet \<Rightarrow> account \<Rightarrow> buffer \<Rightarrow> bool" where
  "hasTransaction w a h = (db_transactions w (acc_id a) h \<noteq> None)"

definition accountAddPendingTransaction ::
  "account \<Rightarrow> transaction \<Rightarrow> decryptedNote list \<Rightarrow> int \<Rightarrow> wallet \<Rightarrow> wallet" where
  "accountAddPendingTransaction a t decryptedNotes submittedSequence w =
     commit a [AddPendingTransaction t decryptedNotes submittedSequence]
       (saveTransaction a (tx_hash t)
          \<lparr>tv_transaction = t, tv_blockHash = None, tv_sequence = None,
           tv_submittedSequence = submittedSequence\<rparr> w)"

text \<open>\<open>this.accounts.get(accountId)\<close>\<close>

definition getAccount :: "wallet \<Rightarrow> string \<Rightarrow> account option" where
  "getAccount w accountId = find (\<lambda>a. acc_id a = accountId) (accounts w)"

text \<open>The loop of \<open>addPendingTransaction\<close> over the entries of the decryption result.\<close>

fun addPendingEntries ::
  "chain \<Rightarrow> transaction \<Rightarrow> (string \<times> decryptedNote list) list \<Rightarrow> wallet \<Rightarrow> wallet" where
  "addPendingEntries ch t [] w = w"
| "addPendingEntries ch t ((accountId, decryptedNotes) # rest) w =
     (case getAccount w accountId of
        None \<Rightarrow> addPendingEntries ch t rest w
      | Some a \<Rightarrow>
          addPendingEntries ch t rest
            (accountAddPendingTransaction a t decryptedNotes (bh_sequence (chain_head ch)) w))"

definition addPendingTransaction ::
  "chain \<Rightarrow> workerPool \<Rightarrow> transaction \<Rightarrow> wallet \<Rightarrow> wallet \<times> workerPool" where
  "addPendingTransaction ch wp t w =
     (let accs = filter (\<lambda>a. \<not> hasTransaction w a (tx_hash t)) (listAccounts w)
      in if accs = [] then (w, wp)
         else case decryptNotes w wp t None (Some accs) of
           (decryptedNotesByAccountId, wp1) \<Rightarrow>
             (addPendingEntries ch t decryptedNotesByAccountId w, wp1))"

text \<open>
  \<open>postTransaction(raw, memPool)\<close>. The \<open>MemPool\<close> (../memPool, not among the sources)
  is the list of the transactions handed to \<open>memPool.acceptTransaction\<close>, oldest
  first. The throw comes before the first effect, so the state returned beside the
  error is the state of the call.
\<close>

definition postTransaction ::
  "chain \<Rightarrow> workerPool \<Rightarrow> rawTransaction \<Rightarrow> transaction list \<Rightarrow> wallet \<Rightarrow>
   (walletError + transaction) \<times> wallet \<times> transaction list \<times> workerPool" where
  "postTransaction ch wp raw memPool w =
     (let t = wp_postTransaction wp raw
      in if \<not> chain_verifyCreatedTransaction ch t then (Inl InvalidTransaction, w, memPool, wp)
         else case addPendingTransaction ch wp t w of
           (w1, wp1) \<Rightarrow>
             (let w2 = broadcastTransaction t w1;
                  w3 = w2\<lparr>onTransactionCreated := onTransactionCreated w2 @ [t]\<rparr>
              in (Inr t, w3, memPool @ [t], wp1)))"

text \<open>
  For stating what \<open>addPendingTransaction\<close> does: the entries of the decryption result
  for a list of accounts, and what \<open>account.addPendingTransaction\<close> adds to the state
  the database holds of an account.
\<close>

definition pendingEntries ::
  "workerPool \<Rightarrow> account list \<Rightarrow> transaction \<Rightarrow> (string \<times> decryptedNote list) list" where
  "pendingEntries wp as t =
     concat (map (\<lambda>a. if decryptedFor wp a (t, None) = [] then []
                       else [(acc_id a, decryptedFor wp a (t, None))]) as)"

definition addedPending ::
  "transaction \<Rightarrow> decryptedNote list \<Rightarrow> int \<Rightarrow>
   account option \<times> head option \<times> accountCall list list \<times>
   (buffer \<Rightarrow> transactionValue option) \<times> (buffer \<Rightarrow> decryptedNoteValue option) \<Rightarrow>
   account option \<times> head option \<times> accountCall list list \<times>
   (buffer \<Rightarrow> transactionValue option) \<times> (buffer \<Rightarrow> decryptedNoteValue option)" where
  "addedPending t dns q st =
     (case st of (acc, h0, jn, txs, dn) \<Rightarrow>
        (acc, h0, jn @ [[AddPendingTransaction t dns q]],
         txs(tx_hash t := Some \<lparr>tv_transaction = t, tv_blockHash = None, tv_sequence = None,
                                  tv_submittedSequence = q\<rparr>),
         dn))"

section \<open>Example states\<close>

text \<open>
  A wallet with one account \<open>a1\<close> and an empty database; a chain whose nullifier set
  holds \<open>[66]\<close>, whose tree gives a witness for the leaves 0 to 9, whose block \<open>[6]\<close>
  holds one transaction and whose block \<open>[5]\<close> holds a miner's fee and that
  transaction, and whose verifier rejects the transaction \<open>[77]\<close>; the witnesses below
  evaluate the model on them.
\<close>

definition exAccount :: account where
  "exAccount = \<lparr>acc_id = ''a1'', acc_name = ''alice'', acc_incomingViewKey = ''ivk1'',
     acc_outgoingViewKey = ''ovk1'', acc_spendingKey = ''sk1'', acc_publicAddress = ''pa1''\<rparr>"

definition exWallet :: wallet where
  "exWallet = \<lparr>accounts = [exAccount], defaultAccount = None,
     db_accounts = (\<lambda>i. None), db_heads = (\<lambda>i. None), db_journal = (\<lambda>i. []),
     db_transactions = (\<lambda>i h. None), db_decryptedNotes = (\<lambda>i h. None),
     scan = None, chainProcessor_hash = None, chainProcessor_sequence = None,
     rebroadcastAfter = 10, isStarted = True, eventLoopAborted = False,
     eventLoopAbortAfter = None,
     onBroadcastTransaction = [], onTransactionCreated = [], onAccountImported = []\<rparr>"

definition exHeader :: blockHeader where
  "exHeader = \<lparr>bh_hash = [1], bh_previousBlockHash = [0], bh_sequence = 1\<rparr>"

text \<open>The blocks \<open>[5]\<close> (on \<open>[4]\<close>) and \<open>[6]\<close> (on \<open>[5]\<close>), and three transactions.\<close>

definition exHeader5 :: blockHeader where
  "exHeader5 = \<lparr>bh_hash = [5], bh_previousBlockHash = [4], bh_sequence = 5\<rparr>"

definition exHeader6 :: blockHeader where
  "exHeader6 = \<lparr>bh_hash = [6], bh_previousBlockHash = [5], bh_sequence = 6\<rparr>"

definition exTx :: transaction where
  "exTx = \<lparr>tx_hash = [41], tx_notes = [[9]], tx_expiration = 20, tx_isMinersFee = False\<rparr>"

definition exTxFee :: transaction where
  "exTxFee = \<lparr>tx_hash = [40], tx_notes = [[8]], tx_expiration = 0, tx_isMinersFee = True\<rparr>"

definition exTxBad :: transaction where
  "exTxBad = \<lparr>tx_hash = [77], tx_notes = [[7]], tx_expiration = 20, tx_isMinersFee = False\<rparr>"

definition exChain :: chain where
  "exChain = \<lparr>chain_head = exHeader, chain_synced = True, chain_genesis = exHeader,
     chain_getHeader =
       (\<lambda>h. if h = [1] then Some exHeader else if h = [5] then Some exHeader5
            else if h = [6] then Some exHeader6 else None),
     chain_getBlockTransactions =
       (\<lambda>b. if bh_hash b = [6] then [(exTx, Some 0)]
            else if bh_hash b = [5] then [(exTxFee, Some 0), (exTx, Some 1)]
            else []),
     chain_nullifiers_contains = (\<lambda>nf. nf = [66]),
     chain_notes_witness =
       (\<lambda>i. if 0 \<le> i \<and> i < 10 then Some \<lparr>nw_treeSize = 10, nw_rootHash = [42]\<rparr> else None),
     chain_verifyCreatedTransaction = (\<lambda>t. tx_hash t \<noteq> [77]),
     chain_verifyTransactionAdd = (\<lambda>t. tx_hash t \<noteq> [77])\<rparr>"

definition exNote :: "int \<Rightarrow> int option \<Rightarrow> buffer option \<Rightarrow> decryptedNoteValue" where
  "exNote v i nf =
     \<lparr>dnv_note = \<lparr>note_value = v, note_assetId = [0], note_serialized = [nat v]\<rparr>,
      dnv_index = i, dnv_nullifier = nf, dnv_spent = False, dnv_hash = [nat v, 1]\<rparr>"

text \<open>
  Unspent notes of \<open>a1\<close>, in the order the selector meets them: a zero note, a note
  whose nullifier is on the chain, a note beyond the tree, and three notes to spend.
\<close>

definition exUnspent :: "account \<Rightarrow> buffer \<Rightarrow> decryptedNoteValue list" where
  "exUnspent a assetId =
     [exNote 0 None None, exNote 4 (Some 1) (Some [66]), exNote 3 (Some 20) (Some [7]),
      exNote 5 (Some 2) (Some [8]), exNote 6 (Some 3) (Some [9]), exNote 7 (Some 4) (Some [10])]"

text \<open>
  Unspent notes by asset: those above for asset \<open>[0]\<close>; for asset \<open>[2]\<close> a mined
  note, a note whose index is \<open>null\<close> and another mined note.
\<close>

definition exUnspentByAsset :: "account \<Rightarrow> buffer \<Rightarrow> decryptedNoteValue list" where
  "exUnspentByAsset a assetId =
     (if assetId = [0] then exUnspent a assetId
      else if assetId = [2]
      then [exNote 2 (Some 5) (Some [11]), exNote 9 None (Some [12]), exNote 8 (Some 6) (Some [13])]
      else [])"

text \<open>
  A second account \<open>a2\<close>; a wallet in which \<open>a1\<close> is at block 5 and \<open>a2\<close> at block 3;
  a wallet whose chain cursor is block 1; a key.
\<close>

definition exAccount2 :: account where
  "exAccount2 = \<lparr>acc_id = ''a2'', acc_name = ''bob'', acc_incomingViewKey = ''ivk2'',
     acc_outgoingViewKey = ''ovk2'', acc_spendingKey = ''sk2'', acc_publicAddress = ''pa2''\<rparr>"

definition exWalletTwo :: wallet where
  "exWalletTwo = exWallet\<lparr>accounts := [exAccount, exAccount2],
     db_heads := (\<lambda>i. if i = ''a1'' then Some \<lparr>head_hash = [5], head_sequence = 5\<rparr>
                      else if i = ''a2'' then Some \<lparr>head_hash = [3], head_sequence = 3\<rparr>
                      else None)\<rparr>"

definition exWalletAtOne :: wallet where
  "exWalletAtOne = exWallet\<lparr>chainProcessor_hash := Some [1], chainProcessor_sequence := Some 1\<rparr>"

definition exKey :: key where
  "exKey = \<lparr>spending_key = ''sk3'', incoming_view_key = ''ivk3'', outgoing_view_key = ''ovk3'',
     public_address = ''pa3''\<rparr>"

text \<open>
  A worker pool that decrypts for the incoming view key of \<open>a1\<close> only and posts
  \<open>exTx\<close>; one that posts \<open>exTx\<close> and decrypts nothing; an aborted scan token.
\<close>

definition exDecrypt :: "decryptNoteOptions \<Rightarrow> decryptedNote option" where
  "exDecrypt p =
     (if incomingViewKey p = ''ivk1''
      then Some \<lparr>dn_index = currentNoteIndex p, dn_forSpender = False, dn_hash = serializedNote p,
                 dn_nullifier = None, dn_serializedNote = serializedNote p\<rparr>
      else None)"

definition exWorker :: workerPool where
  "exWorker = \<lparr>wp_decryptNotes = map exDecrypt,
     wp_postTransaction = (\<lambda>raw. exTx),
     wp_submitted = []\<rparr>"

definition exWorkerBlind :: workerPool where
  "exWorkerBlind = exWorker\<lparr>wp_decryptNotes := map (\<lambda>p. None)\<rparr>"

definition exScanAborted :: scanState where
  "exScanAborted = \<lparr>ss_isAborted = True, ss_abortAfter = None, ss_sequence = 5, ss_endSequence = 6,
     ss_onTransaction = [], ss_complete = False\<rparr>"

text \<open>
  A scan token that is aborted after one more read of its signal; a wallet in which
  \<open>a1\<close> is at block \<open>[4]\<close>.
\<close>

definition exScanAbortsAfterOne :: scanState where
  "exScanAbortsAfterOne = exScanAborted\<lparr>ss_isAborted := False, ss_abortAfter := Some 1\<rparr>"

definition exWalletAtFour :: wallet where
  "exWalletAtFour = exWalletTwo\<lparr>db_heads := (db_heads exWalletTwo)
     (''a1'' := Some \<lparr>head_hash = [4], head_sequence = 4\<rparr>)\<rparr>"

text \<open>
  Pending records of \<open>a1\<close> seen at head sequence 6 with \<open>rebroadcastAfter = 2\<close>: one
  due and valid, one due and rejected by the verifier, one in a block, one submitted
  at 5; the wallet whose cursor is block \<open>[6]\<close>; a raw transaction.
\<close>

definition exRecord :: "transaction \<Rightarrow> buffer option \<Rightarrow> int \<Rightarrow> transactionValue" where
  "exRecord t b q = \<lparr>tv_transaction = t, tv_blockHash = b, tv_sequence = None,
     tv_submittedSequence = q\<rparr>"



definition exRaw :: rawTransaction where
  "exRaw = \<lparr>raw_spendingKey = ''sk1'', raw_expiration = 20, raw_fee = 1, raw_receives = [[9]],
     raw_spends = []\<rparr>"







section \<open>Theorems\<close>

subsection \<open>Transaction status\<close>

text \<open>
  C7 as stated fails where a sequence is 0, since \<open>if (!headSequence)\<close> and
  \<open>if (transaction.sequence)\<close> test truthiness. With the head sequence 0 given in the
  options, an unmined transaction that expires at 5 is UNKNOWN, where the claim says
  PENDING (a head sequence is available and the expiration has not passed). With head
  sequence 10 and 2 confirmations, a record whose sequence is 0 takes the unmined
  branch and is PENDING, where the claim says CONFIRMED (mined, and \<open>10 - 0 \<ge> 2\<close>).
\<close>

theorem getTransactionStatus_zero_counterexample:
  "getTransactionStatus 2 None
     \<lparr>tv_transaction = \<lparr>tx_hash = [1], tx_notes = [], tx_expiration = 5, tx_isMinersFee = False\<rparr>,
      tv_blockHash = None, tv_sequence = None, tv_submittedSequence = 0\<rparr>
     (Some \<lparr>opt_headSequence = Some 0, opt_confirmations = None\<rparr>) = UNKNOWN \<and>
   getTransactionStatus 2 None
     \<lparr>tv_transaction = \<lparr>tx_hash = [1], tx_notes = [], tx_expiration = 20, tx_isMinersFee = False\<rparr>,
      tv_blockHash = Some [3], tv_sequence = Some 0, tv_submittedSequence = 0\<rparr>
     (Some \<lparr>opt_headSequence = Some 10, opt_confirmations = None\<rparr>) = PENDING"
  by (simp add: getTransactionStatus_def headSequenceOf_def confirmationsOf_def ifTruthy_def
      truthy_def isExpiredSequence_def)

text \<open>
  C7, amended. The head sequence is \<open>options.headSequence\<close> when the options give one
  that is not \<open>null\<close>, and the sequence of the account's head otherwise; the
  confirmations are \<open>options.confirmations\<close> when given and the configured value
  otherwise. \<open>getTransactionStatus\<close> returns UNKNOWN when there is no head sequence or
  it is 0. With a head sequence \<open>h\<close> other than 0: a record whose sequence \<open>s\<close> is
  neither \<open>null\<close> nor 0 is CONFIRMED when \<open>h - s \<ge> confirmations\<close> and UNCONFIRMED
  otherwise; a record whose sequence is \<open>null\<close> or 0 is EXPIRED when its expiration is
  at or before \<open>h\<close> (the expiration equal to the head sequence included) and PENDING
  otherwise.
\<close>

theorem getTransactionStatus_cases:
  assumes "headSequence =
      (case options of
         None \<Rightarrow> map_option head_sequence accountHead
       | Some opts \<Rightarrow>
           (case opt_headSequence opts of
              None \<Rightarrow> map_option head_sequence accountHead
            | Some h \<Rightarrow> Some h))"
    and "confirmations =
      (case options of
         None \<Rightarrow> cfg
       | Some opts \<Rightarrow> (case opt_confirmations opts of None \<Rightarrow> cfg | Some c \<Rightarrow> c))"
  shows "(headSequence = None \<or> headSequence = Some 0 \<longrightarrow>
      getTransactionStatus cfg accountHead t options = UNKNOWN) \<and>
   (\<forall>h s. headSequence = Some h \<and> h \<noteq> 0 \<and> tv_sequence t = Some s \<and> s \<noteq> 0 \<longrightarrow>
      getTransactionStatus cfg accountHead t options =
        (if h - s \<ge> confirmations then CONFIRMED else UNCONFIRMED)) \<and>
   (\<forall>h. headSequence = Some h \<and> h \<noteq> 0 \<and> (tv_sequence t = None \<or> tv_sequence t = Some 0) \<longrightarrow>
      getTransactionStatus cfg accountHead t options =
        (if tx_expiration (tv_transaction t) \<le> h then EXPIRED else PENDING))"
  using assms
  by (auto simp: getTransactionStatus_def headSequenceOf_def confirmationsOf_def ifTruthy_def
      truthy_def isExpiredSequence_def split: option.splits)

text \<open>
  The options win over the account's head and over the configured confirmations: with
  the account at 20 and 2 confirmations configured, the options \<open>{headSequence: 10,
  confirmations: 3}\<close> make a transaction mined at 8 UNCONFIRMED. An account head with
  sequence 0 gives UNKNOWN; an expiration equal to the head sequence gives EXPIRED.
\<close>

theorem getTransactionStatus_cases_witness:
  "getTransactionStatus 2 (Some \<lparr>head_hash = [7], head_sequence = 20\<rparr>)
     \<lparr>tv_transaction = \<lparr>tx_hash = [1], tx_notes = [], tx_expiration = 0, tx_isMinersFee = False\<rparr>,
      tv_blockHash = Some [3], tv_sequence = Some 8, tv_submittedSequence = 5\<rparr>
     (Some \<lparr>opt_headSequence = Some 10, opt_confirmations = Some 3\<rparr>) = UNCONFIRMED \<and>
   getTransactionStatus 2 (Some \<lparr>head_hash = [7], head_sequence = 10\<rparr>)
     \<lparr>tv_transaction = \<lparr>tx_hash = [1], tx_notes = [], tx_expiration = 0, tx_isMinersFee = False\<rparr>,
      tv_blockHash = Some [3], tv_sequence = Some 8, tv_submittedSequence = 5\<rparr>
     (Some \<lparr>opt_headSequence = None, opt_confirmations = None\<rparr>) = CONFIRMED \<and>
   getTransactionStatus 2 (Some \<lparr>head_hash = [7], head_sequence = 0\<rparr>)
     \<lparr>tv_transaction = \<lparr>tx_hash = [1], tx_notes = [], tx_expiration = 10, tx_isMinersFee = False\<rparr>,
      tv_blockHash = None, tv_sequence = None, tv_submittedSequence = 5\<rparr> None = UNKNOWN \<and>
   getTransactionStatus 2 (Some \<lparr>head_hash = [7], head_sequence = 10\<rparr>)
     \<lparr>tv_transaction = \<lparr>tx_hash = [1], tx_notes = [], tx_expiration = 10, tx_isMinersFee = False\<rparr>,
      tv_blockHash = None, tv_sequence = None, tv_submittedSequence = 5\<rparr> None = EXPIRED \<and>
   getTransactionStatus 2 (Some \<lparr>head_hash = [7], head_sequence = 10\<rparr>)
     \<lparr>tv_transaction = \<lparr>tx_hash = [1], tx_notes = [], tx_expiration = 11, tx_isMinersFee = False\<rparr>,
      tv_blockHash = None, tv_sequence = None, tv_submittedSequence = 5\<rparr> None = PENDING"
  using
    getTransactionStatus_cases [where headSequence = "Some 10"
      and options = "Some \<lparr>opt_headSequence = Some 10, opt_confirmations = Some 3\<rparr>"
      and accountHead = "Some \<lparr>head_hash = [7], head_sequence = 20\<rparr>"
      and confirmations = 3 and cfg = 2
      and t = "\<lparr>tv_transaction = \<lparr>tx_hash = [1], tx_notes = [], tx_expiration = 0, tx_isMinersFee = False\<rparr>,
        tv_blockHash = Some [3], tv_sequence = Some 8, tv_submittedSequence = 5\<rparr>"]
    getTransactionStatus_cases [where headSequence = "Some 10"
      and options = "Some \<lparr>opt_headSequence = None, opt_confirmations = None\<rparr>"
      and accountHead = "Some \<lparr>head_hash = [7], head_sequence = 10\<rparr>"
      and confirmations = 2 and cfg = 2
      and t = "\<lparr>tv_transaction = \<lparr>tx_hash = [1], tx_notes = [], tx_expiration = 0, tx_isMinersFee = False\<rparr>,
        tv_blockHash = Some [3], tv_sequence = Some 8, tv_submittedSequence = 5\<rparr>"]
    getTransactionStatus_cases [where headSequence = "Some 0"
      and options = "None"
      and accountHead = "Some \<lparr>head_hash = [7], head_sequence = 0\<rparr>"
      and confirmations = 2 and cfg = 2
      and t = "\<lparr>tv_transaction = \<lparr>tx_hash = [1], tx_notes = [], tx_expiration = 10, tx_isMinersFee = False\<rparr>,
        tv_blockHash = None, tv_sequence = None, tv_submittedSequence = 5\<rparr>"]
    getTransactionStatus_cases [where headSequence = "Some 10"
      and options = "None"
      and accountHead = "Some \<lparr>head_hash = [7], head_sequence = 10\<rparr>"
      and confirmations = 2 and cfg = 2
      and t = "\<lparr>tv_transaction = \<lparr>tx_hash = [1], tx_notes = [], tx_expiration = 10, tx_isMinersFee = False\<rparr>,
        tv_blockHash = None, tv_sequence = None, tv_submittedSequence = 5\<rparr>"]
    getTransactionStatus_cases [where headSequence = "Some 10"
      and options = "None"
      and accountHead = "Some \<lparr>head_hash = [7], head_sequence = 10\<rparr>"
      and confirmations = 2 and cfg = 2
      and t = "\<lparr>tv_transaction = \<lparr>tx_hash = [1], tx_notes = [], tx_expiration = 11, tx_isMinersFee = False\<rparr>,
        tv_blockHash = None, tv_sequence = None, tv_submittedSequence = 5\<rparr>"]
  by simp

subsection \<open>Spend selection\<close>

lemma checkNoteOnChainAndRepair_onChain:
  "onChain ch u \<Longrightarrow> checkNoteOnChainAndRepair ch sender u w = (True, markSpent sender u w)"
  by (auto simp: onChain_def checkNoteOnChainAndRepair_def markSpent_def split: option.splits)

lemma checkNoteOnChainAndRepair_not_onChain:
  "\<not> onChain ch u \<Longrightarrow> checkNoteOnChainAndRepair ch sender u w = (False, w)"
  by (auto simp: onChain_def checkNoteOnChainAndRepair_def split: option.splits)

lemma createSpendsLoop_repaired:
  "repaired ch u \<Longrightarrow> mined u \<Longrightarrow>
   createSpendsLoop ch sender needed (u # us) (amount, ns) w =
   createSpendsLoop ch sender needed us (amount, ns) (markSpent sender u w)"
  by (auto simp: repaired_def mined_def checkNoteOnChainAndRepair_onChain)

lemma createSpendsLoop_no_witness:
  "0 < note_value (dnv_note u) \<Longrightarrow> mined u \<Longrightarrow> \<not> onChain ch u \<Longrightarrow> witnessOf ch u = None \<Longrightarrow>
   createSpendsLoop ch sender needed (u # us) (amount, ns) w =
   createSpendsLoop ch sender needed us (amount, ns) w"
  by (auto simp: mined_def checkNoteOnChainAndRepair_not_onChain witnessOf_def)

lemma createSpendsLoop_consume:
  "spendable ch u \<Longrightarrow> mined u \<Longrightarrow> spendOf ch u = Some sp \<Longrightarrow>
   createSpendsLoop ch sender needed (u # us) (amount, ns) w =
   (if amount + note_value (dnv_note u) \<ge> needed
    then (Inr (amount + note_value (dnv_note u), ns @ [sp]), w)
    else createSpendsLoop ch sender needed us (amount + note_value (dnv_note u), ns @ [sp]) w)"
  by (auto simp: spendable_def mined_def checkNoteOnChainAndRepair_not_onChain witnessOf_def
      spendOf_def Let_def)

lemma total_Nil: "total [] = 0"
  by (simp add: total_def)

lemma total_Cons: "total (u # us) = note_value (dnv_note u) + total us"
  by (simp add: total_def)

lemma spendable_spendOf: "spendable ch u \<Longrightarrow> \<exists>sp. spendOf ch u = Some sp"
  by (auto simp: spendable_def spendOf_def)

lemma createSpendsLoop_assert:
  "0 < note_value (dnv_note u) \<Longrightarrow> \<not> mined u \<Longrightarrow>
   createSpendsLoop ch sender needed (u # us) (amount, ns) w = (Inl AssertionFailed, w)"
  by (auto simp: mined_def split: option.splits)

text \<open>
  The loop from any state: it scans a prefix of the notes, in which every note of
  positive value is mined; it consumes the spendable ones among them in order and
  repairs the ones found on the chain. Either it returns, having stopped before the
  end only on a consumed note that reaches the amount needed; or it fails on the next
  note, which has a positive value and is not mined. No note is consumed once the
  amount is reached.
\<close>

lemma createSpendsLoop_scan:
  "\<exists>scanned rest. us = scanned @ rest \<and>
     (\<forall>u\<in>set scanned. 0 < note_value (dnv_note u) \<longrightarrow> mined u) \<and>
     (\<forall>k. 0 < k \<and> k < length (selected ch scanned) \<longrightarrow>
          amount + total (take k (selected ch scanned)) < needed) \<and>
     (createSpendsLoop ch sender needed us (amount, ns) w =
        (Inr (amount + total (selected ch scanned),
              ns @ List.map_filter (spendOf ch) (selected ch scanned)),
         fold (markSpent sender) (filter (repaired ch) scanned) w) \<and>
      (rest \<noteq> [] \<longrightarrow> scanned \<noteq> [] \<and> spendable ch (last scanned) \<and>
          needed \<le> amount + total (selected ch scanned))
      \<or>
      createSpendsLoop ch sender needed us (amount, ns) w =
        (Inl AssertionFailed, fold (markSpent sender) (filter (repaired ch) scanned) w) \<and>
      (\<exists>u rest'. rest = u # rest' \<and> 0 < note_value (dnv_note u) \<and> \<not> mined u) \<and>
      (selected ch scanned \<noteq> [] \<longrightarrow> amount + total (selected ch scanned) < needed))"
  (is "\<exists>scanned rest. ?P us amount ns w scanned rest")
proof (induction us arbitrary: amount ns w)
  case Nil
  show ?case by (simp add: selected_def total_Nil List.map_filter_simps)
next
  case (Cons u us)
  let ?v = "note_value (dnv_note u)"
  consider (nonpos) "?v \<le> 0"
    | (unmined) "0 < ?v" "\<not> mined u"
    | (rep) "repaired ch u" "mined u"
    | (nowit) "0 < ?v" "mined u" "\<not> onChain ch u" "witnessOf ch u = None"
    | (spend) "spendable ch u" "mined u"
  proof -
    have "?v \<le> 0 \<or> 0 < ?v" by linarith
    then show thesis
      using that by (cases "witnessOf ch u"; cases "onChain ch u"; cases "mined u")
        (auto simp: repaired_def spendable_def)
  qed
  then show ?case
  proof cases
    case nonpos
    from Cons.IH [of amount ns w]
    obtain scanned rest where s: "?P us amount ns w scanned rest" by blast
    have n: "\<not> spendable ch u" "\<not> repaired ch u"
      using nonpos by (auto simp: spendable_def repaired_def)
    have sel: "selected ch (u # scanned) = selected ch scanned"
      "filter (repaired ch) (u # scanned) = filter (repaired ch) scanned"
      using n by (simp_all add: selected_def)
    have step: "createSpendsLoop ch sender needed (u # us) (amount, ns) w =
        createSpendsLoop ch sender needed us (amount, ns) w"
      using nonpos by simp
    have "?P (u # us) amount ns w (u # scanned) rest"
      unfolding sel step using s nonpos by auto
    then show ?thesis by blast
  next
    case unmined
    have "?P (u # us) amount ns w [] (u # us)"
      using unmined by (simp add: createSpendsLoop_assert selected_def del: createSpendsLoop.simps)
    then show ?thesis by blast
  next
    case rep
    from Cons.IH [of amount ns "markSpent sender u w"]
    obtain scanned rest where s: "?P us amount ns (markSpent sender u w) scanned rest" by blast
    have n: "\<not> spendable ch u"
      using rep by (auto simp: spendable_def repaired_def)
    have sel: "selected ch (u # scanned) = selected ch scanned"
      "fold (markSpent sender) (filter (repaired ch) (u # scanned)) w =
       fold (markSpent sender) (filter (repaired ch) scanned) (markSpent sender u w)"
      using n rep by (simp_all add: selected_def)
    have step: "createSpendsLoop ch sender needed (u # us) (amount, ns) w =
        createSpendsLoop ch sender needed us (amount, ns) (markSpent sender u w)"
      using rep by (simp add: createSpendsLoop_repaired del: createSpendsLoop.simps)
    have "?P (u # us) amount ns w (u # scanned) rest"
      unfolding sel step using s rep n by auto
    then show ?thesis by blast
  next
    case nowit
    from Cons.IH [of amount ns w]
    obtain scanned rest where s: "?P us amount ns w scanned rest" by blast
    have n: "\<not> spendable ch u" "\<not> repaired ch u"
      using nowit by (auto simp: spendable_def repaired_def)
    have sel: "selected ch (u # scanned) = selected ch scanned"
      "filter (repaired ch) (u # scanned) = filter (repaired ch) scanned"
      using n by (simp_all add: selected_def)
    have step: "createSpendsLoop ch sender needed (u # us) (amount, ns) w =
        createSpendsLoop ch sender needed us (amount, ns) w"
      using nowit by (simp add: createSpendsLoop_no_witness del: createSpendsLoop.simps)
    have "?P (u # us) amount ns w (u # scanned) rest"
      unfolding sel step using s nowit n by auto
    then show ?thesis by blast
  next
    case spend
    then obtain sp where sp: "spendOf ch u = Some sp"
      using spendable_spendOf by blast
    have nr: "\<not> repaired ch u"
      using spend by (auto simp: spendable_def repaired_def)
    show ?thesis
    proof (cases "amount + ?v \<ge> needed")
      case True
      have "?P (u # us) amount ns w [u] us"
        using True spend sp nr
        by (simp add: createSpendsLoop_consume selected_def total_Cons total_Nil
            List.map_filter_simps del: createSpendsLoop.simps)
      then show ?thesis by blast
    next
      case False
      from Cons.IH [of "amount + ?v" "ns @ [sp]" w]
      obtain scanned rest where s: "?P us (amount + ?v) (ns @ [sp]) w scanned rest" by blast
      have sel: "selected ch (u # scanned) = u # selected ch scanned"
        "filter (repaired ch) (u # scanned) = filter (repaired ch) scanned"
        using spend nr by (simp_all add: selected_def)
      have step: "createSpendsLoop ch sender needed (u # us) (amount, ns) w =
          createSpendsLoop ch sender needed us (amount + ?v, ns @ [sp]) w"
        using spend sp False by (simp add: createSpendsLoop_consume del: createSpendsLoop.simps)
      have minimal: "\<forall>k. 0 < k \<and> k < length (u # selected ch scanned) \<longrightarrow>
            amount + total (take k (u # selected ch scanned)) < needed"
      proof (intro allI impI)
        fix k assume k: "0 < k \<and> k < length (u # selected ch scanned)"
        then obtain j where j: "k = Suc j" by (cases k) auto
        show "amount + total (take k (u # selected ch scanned)) < needed"
        proof (cases j)
          case 0
          then show ?thesis using False j by (simp add: total_Cons total_Nil)
        next
          case (Suc i)
          then have "0 < j \<and> j < length (selected ch scanned)" using k j by simp
          then have "amount + ?v + total (take j (selected ch scanned)) < needed"
            using s by blast
          then show ?thesis using j by (simp add: total_Cons add.assoc)
        qed
      qed
      have "?P (u # us) amount ns w (u # scanned) rest"
        unfolding sel step using s spend sp minimal False
        by (auto simp: total_Cons total_Nil List.map_filter_simps add.assoc
            simp del: createSpendsLoop.simps)
      then show ?thesis by blast
    qed
  qed
qed

text \<open>
  \<open>createSpends\<close> from any \<open>notesToSpend\<close>: the spends found are appended to it.
\<close>

lemma createSpendsEntries_acc:
  "createSpendsEntries ch unspent sender es acc w =
     (case createSpendsEntries ch unspent sender es [] w of
        (Inl e, w1) \<Rightarrow> (Inl e, w1)
      | (Inr others, w1) \<Rightarrow> (Inr (acc @ others), w1))"
proof (induction es arbitrary: acc w)
  case Nil
  show ?case by simp
next
  case (Cons e es)
  obtain assetId amountNeeded where e: "e = (assetId, amountNeeded)" by (cases e)
  obtain r w1 where r: "createSpendsForAsset ch unspent sender assetId amountNeeded w = (r, w1)"
    by (cases "createSpendsForAsset ch unspent sender assetId amountNeeded w")
  show ?case
  proof (cases r)
    case (Inl x)
    then show ?thesis using e r by simp
  next
    case (Inr an)
    obtain amount nts where an: "an = (amount, nts)" by (cases an)
    show ?thesis
      using e r Inr an Cons.IH [of "acc @ nts" w1] Cons.IH [of nts w1]
      by (auto split: prod.splits sum.splits)
  qed
qed


text \<open>
  C1 as stated fails: for asset \<open>[2]\<close> the account has a mined note of value 2, a
  note of value 9 whose index is \<open>null\<close>, and a mined note of value 8. With 10 needed
  the claim has the selector consume the first, skip the second (no witness can be
  produced for it) and stop on the third; had it skipped both later notes, it would
  fail with \<open>NotEnoughFunds ([2], 2, 10)\<close>. The selector fails with an assertion error
  on the second note.
\<close>

theorem createSpends_unmined_counterexample:
  "fst (createSpends exChain exUnspentByAsset exAccount [([2], 10)] exWallet) = Inl AssertionFailed \<and>
   fst (createSpends exChain exUnspentByAsset exAccount [([2], 10)] exWallet) \<noteq>
     Inr [(dnv_note (exNote 2 (Some 5) (Some [11])), \<lparr>nw_treeSize = 10, nw_rootHash = [42]\<rparr>),
          (dnv_note (exNote 8 (Some 6) (Some [13])), \<lparr>nw_treeSize = 10, nw_rootHash = [42]\<rparr>)] \<and>
   fst (createSpends exChain exUnspentByAsset exAccount [([2], 10)] exWallet) \<noteq>
     Inl (NotEnoughFundsError [2] 2 10)"
  by (simp add: createSpends_def createSpendsForAsset_def exUnspentByAsset_def exNote_def
      exChain_def checkNoteOnChainAndRepair_def exWallet_def exAccount_def)

text \<open>
  C1, amended. For every account, asset id and required amount, the selector scans a
  prefix \<open>scanned\<close> of the account's unspent notes in which every note of positive
  value is mined (index and nullifier set). It skips the notes of value \<open>\<le> 0\<close>, the
  notes whose nullifier is in the chain's nullifier set (each is marked spent in the
  database) and the notes without a witness; the others (\<open>selected\<close>) are consumed in
  order, each with its witness, and the amount is the sum of their values; no note is
  consumed after the amount has reached \<open>amountNeeded\<close>. Either the selector returns
  the amount and the spends, having stopped before the end of the notes only on a
  consumed note with which the amount reaches \<open>amountNeeded\<close>; or the note after the
  prefix has a positive value and a \<open>null\<close> index or nullifier, the amount is not
  reached by a consumed note, and the selector fails with an assertion error.
  \<open>createSpends\<close> runs the selector for the entries of \<open>amountsNeeded\<close> in order: a
  failure of the selector ends it; an amount below \<open>amountNeeded\<close> ends it with
  \<open>NotEnoughFundsError (assetId, amount, amountNeeded)\<close>; otherwise the spends of the
  entry are followed by those of the later entries.
\<close>

theorem createSpends_selection:
  "(\<exists>scanned rest. unspent sender assetId = scanned @ rest \<and>
      (\<forall>u\<in>set scanned. 0 < note_value (dnv_note u) \<longrightarrow> mined u) \<and>
      (\<forall>k. 0 < k \<and> k < length (selected ch scanned) \<longrightarrow>
           total (take k (selected ch scanned)) < amountNeeded) \<and>
      (createSpendsForAsset ch unspent sender assetId amountNeeded w =
         (Inr (total (selected ch scanned), List.map_filter (spendOf ch) (selected ch scanned)),
          fold (markSpent sender) (filter (repaired ch) scanned) w) \<and>
       (rest \<noteq> [] \<longrightarrow> scanned \<noteq> [] \<and> spendable ch (last scanned) \<and>
           amountNeeded \<le> total (selected ch scanned))
       \<or>
       createSpendsForAsset ch unspent sender assetId amountNeeded w =
         (Inl AssertionFailed, fold (markSpent sender) (filter (repaired ch) scanned) w) \<and>
       (\<exists>u rest'. rest = u # rest' \<and> 0 < note_value (dnv_note u) \<and> \<not> mined u) \<and>
       (selected ch scanned \<noteq> [] \<longrightarrow> total (selected ch scanned) < amountNeeded))) \<and>
   createSpends ch unspent sender [] w = (Inr [], w) \<and>
   createSpends ch unspent sender ((assetId, amountNeeded) # entries) w =
     (case createSpendsForAsset ch unspent sender assetId amountNeeded w of
        (Inl e, w1) \<Rightarrow> (Inl e, w1)
      | (Inr (amount, spends), w1) \<Rightarrow>
          if amount < amountNeeded
          then (Inl (NotEnoughFundsError assetId amount amountNeeded), w1)
          else (case createSpends ch unspent sender entries w1 of
                  (Inl e, w2) \<Rightarrow> (Inl e, w2)
                | (Inr others, w2) \<Rightarrow> (Inr (spends @ others), w2)))"
proof -
  have a: "\<exists>scanned rest. unspent sender assetId = scanned @ rest \<and>
      (\<forall>u\<in>set scanned. 0 < note_value (dnv_note u) \<longrightarrow> mined u) \<and>
      (\<forall>k. 0 < k \<and> k < length (selected ch scanned) \<longrightarrow>
           total (take k (selected ch scanned)) < amountNeeded) \<and>
      (createSpendsForAsset ch unspent sender assetId amountNeeded w =
         (Inr (total (selected ch scanned), List.map_filter (spendOf ch) (selected ch scanned)),
          fold (markSpent sender) (filter (repaired ch) scanned) w) \<and>
       (rest \<noteq> [] \<longrightarrow> scanned \<noteq> [] \<and> spendable ch (last scanned) \<and>
           amountNeeded \<le> total (selected ch scanned))
       \<or>
       createSpendsForAsset ch unspent sender assetId amountNeeded w =
         (Inl AssertionFailed, fold (markSpent sender) (filter (repaired ch) scanned) w) \<and>
       (\<exists>u rest'. rest = u # rest' \<and> 0 < note_value (dnv_note u) \<and> \<not> mined u) \<and>
       (selected ch scanned \<noteq> [] \<longrightarrow> total (selected ch scanned) < amountNeeded))"
    using createSpendsLoop_scan [of "unspent sender assetId" ch 0 amountNeeded sender "[]" w]
    by (simp add: createSpendsForAsset_def)
  have b: "createSpends ch unspent sender [] w = (Inr [], w)"
    by (simp add: createSpends_def)
  have c: "createSpends ch unspent sender ((assetId, amountNeeded) # entries) w =
     (case createSpendsForAsset ch unspent sender assetId amountNeeded w of
        (Inl e, w1) \<Rightarrow> (Inl e, w1)
      | (Inr (amount, spends), w1) \<Rightarrow>
          if amount < amountNeeded
          then (Inl (NotEnoughFundsError assetId amount amountNeeded), w1)
          else (case createSpends ch unspent sender entries w1 of
                  (Inl e, w2) \<Rightarrow> (Inl e, w2)
                | (Inr others, w2) \<Rightarrow> (Inr (spends @ others), w2)))"
  proof -
    obtain r w1 where r: "createSpendsForAsset ch unspent sender assetId amountNeeded w = (r, w1)"
      by (cases "createSpendsForAsset ch unspent sender assetId amountNeeded w")
    show ?thesis
    proof (cases r)
      case (Inl x)
      then show ?thesis using r by (simp add: createSpends_def)
    next
      case (Inr an)
      obtain amount spends where an: "an = (amount, spends)" by (cases an)
      show ?thesis
        using r Inr an createSpendsEntries_acc [of ch unspent sender entries spends w1]
        by (simp add: createSpends_def)
    qed
  qed
  show ?thesis by (rule conjI [OF a conjI [OF b c]])
qed


text \<open>
  Two assets: both amounts covered; the first asset short; the second asset reaching
  its unmined note.
\<close>

theorem createSpends_selection_witness:
  "fst (createSpends exChain exUnspentByAsset exAccount [([0], 10), ([2], 2)] exWallet) =
     Inr [(dnv_note (exNote 5 (Some 2) (Some [8])), \<lparr>nw_treeSize = 10, nw_rootHash = [42]\<rparr>),
          (dnv_note (exNote 6 (Some 3) (Some [9])), \<lparr>nw_treeSize = 10, nw_rootHash = [42]\<rparr>),
          (dnv_note (exNote 2 (Some 5) (Some [11])), \<lparr>nw_treeSize = 10, nw_rootHash = [42]\<rparr>)] \<and>
   fst (createSpends exChain exUnspentByAsset exAccount [([0], 100), ([2], 2)] exWallet) =
     Inl (NotEnoughFundsError [0] 18 100) \<and>
   fst (createSpends exChain exUnspentByAsset exAccount [([0], 10), ([2], 10)] exWallet) =
     Inl AssertionFailed \<and>
   (\<exists>scanned rest. exUnspentByAsset exAccount [2] = scanned @ rest \<and>
      createSpendsForAsset exChain exUnspentByAsset exAccount [2] 10 exWallet =
        (Inl AssertionFailed,
         fold (markSpent exAccount) (filter (repaired exChain) scanned) exWallet) \<and>
      (\<exists>u rest'. rest = u # rest' \<and> 0 < note_value (dnv_note u) \<and> \<not> mined u))"
proof -
  have e0: "\<And>n. createSpendsForAsset exChain exUnspentByAsset exAccount [0] n exWallet =
      (if n \<le> 5 then (Inr (5, [(dnv_note (exNote 5 (Some 2) (Some [8])),
                                   \<lparr>nw_treeSize = 10, nw_rootHash = [42]\<rparr>)]), exWallet)
       else if n \<le> 11
       then (Inr (11, [(dnv_note (exNote 5 (Some 2) (Some [8])),
                           \<lparr>nw_treeSize = 10, nw_rootHash = [42]\<rparr>),
                       (dnv_note (exNote 6 (Some 3) (Some [9])),
                           \<lparr>nw_treeSize = 10, nw_rootHash = [42]\<rparr>)]), exWallet)
       else (Inr (18, [(dnv_note (exNote 5 (Some 2) (Some [8])),
                           \<lparr>nw_treeSize = 10, nw_rootHash = [42]\<rparr>),
                       (dnv_note (exNote 6 (Some 3) (Some [9])),
                           \<lparr>nw_treeSize = 10, nw_rootHash = [42]\<rparr>),
                       (dnv_note (exNote 7 (Some 4) (Some [10])),
                           \<lparr>nw_treeSize = 10, nw_rootHash = [42]\<rparr>)]), exWallet))"
    by (simp add: createSpendsForAsset_def exUnspentByAsset_def exUnspent_def exNote_def
        exChain_def checkNoteOnChainAndRepair_def exWallet_def exAccount_def Let_def)
  have e1: "createSpendsForAsset exChain exUnspentByAsset exAccount [2] 2 exWallet =
      (Inr (2, [(dnv_note (exNote 2 (Some 5) (Some [11])),
                  \<lparr>nw_treeSize = 10, nw_rootHash = [42]\<rparr>)]), exWallet)"
    "createSpendsForAsset exChain exUnspentByAsset exAccount [2] 10 exWallet =
      (Inl AssertionFailed, exWallet)"
    by (simp_all add: createSpendsForAsset_def exUnspentByAsset_def exNote_def
        exChain_def checkNoteOnChainAndRepair_def exWallet_def exAccount_def Let_def)
  note t = createSpends_selection [of exUnspentByAsset exAccount _ exChain _ exWallet]
  have n: "\<And>es. createSpends exChain exUnspentByAsset exAccount [] exWallet = (Inr [], exWallet)"
    using t [THEN conjunct2, THEN conjunct1] .
  have c1: "fst (createSpends exChain exUnspentByAsset exAccount [([0], 10), ([2], 2)] exWallet) =
     Inr [(dnv_note (exNote 5 (Some 2) (Some [8])), \<lparr>nw_treeSize = 10, nw_rootHash = [42]\<rparr>),
          (dnv_note (exNote 6 (Some 3) (Some [9])), \<lparr>nw_treeSize = 10, nw_rootHash = [42]\<rparr>),
          (dnv_note (exNote 2 (Some 5) (Some [11])), \<lparr>nw_treeSize = 10, nw_rootHash = [42]\<rparr>)]"
    using t [of "[0]" 10 "[([2], 2)]", THEN conjunct2, THEN conjunct2]
      t [of "[2]" 2 "[]", THEN conjunct2, THEN conjunct2] n
    by (simp add: e0 e1)
  have c2: "fst (createSpends exChain exUnspentByAsset exAccount [([0], 100), ([2], 2)] exWallet) =
     Inl (NotEnoughFundsError [0] 18 100)"
    using t [of "[0]" 100 "[([2], 2)]", THEN conjunct2, THEN conjunct2]
    by (simp add: e0)
  have c3: "fst (createSpends exChain exUnspentByAsset exAccount [([0], 10), ([2], 10)] exWallet) =
     Inl AssertionFailed"
    using t [of "[0]" 10 "[([2], 10)]", THEN conjunct2, THEN conjunct2]
      t [of "[2]" 10 "[]", THEN conjunct2, THEN conjunct2]
    by (simp add: e0 e1)
  have c4: "\<exists>scanned rest. exUnspentByAsset exAccount [2] = scanned @ rest \<and>
      createSpendsForAsset exChain exUnspentByAsset exAccount [2] 10 exWallet =
        (Inl AssertionFailed,
         fold (markSpent exAccount) (filter (repaired exChain) scanned) exWallet) \<and>
      (\<exists>u rest'. rest = u # rest' \<and> 0 < note_value (dnv_note u) \<and> \<not> mined u)"
  proof -
    from t [of "[2]" 10 "[]", THEN conjunct1]
    obtain scanned rest where s: "exUnspentByAsset exAccount [2] = scanned @ rest"
      and d: "createSpendsForAsset exChain exUnspentByAsset exAccount [2] 10 exWallet =
           (Inr (total (selected exChain scanned),
                 List.map_filter (spendOf exChain) (selected exChain scanned)),
            fold (markSpent exAccount) (filter (repaired exChain) scanned) exWallet) \<and>
         (rest \<noteq> [] \<longrightarrow> scanned \<noteq> [] \<and> spendable exChain (last scanned) \<and>
             10 \<le> total (selected exChain scanned))
         \<or>
         createSpendsForAsset exChain exUnspentByAsset exAccount [2] 10 exWallet =
           (Inl AssertionFailed,
            fold (markSpent exAccount) (filter (repaired exChain) scanned) exWallet) \<and>
         (\<exists>u rest'. rest = u # rest' \<and> 0 < note_value (dnv_note u) \<and> \<not> mined u) \<and>
         (selected exChain scanned \<noteq> [] \<longrightarrow> total (selected exChain scanned) < 10)"
      by blast
    have "createSpendsForAsset exChain exUnspentByAsset exAccount [2] 10 exWallet \<noteq>
           (Inr (total (selected exChain scanned),
                 List.map_filter (spendOf exChain) (selected exChain scanned)),
            fold (markSpent exAccount) (filter (repaired exChain) scanned) exWallet)"
      by (simp add: e1)
    with d have "createSpendsForAsset exChain exUnspentByAsset exAccount [2] 10 exWallet =
           (Inl AssertionFailed,
            fold (markSpent exAccount) (filter (repaired exChain) scanned) exWallet) \<and>
         (\<exists>u rest'. rest = u # rest' \<and> 0 < note_value (dnv_note u) \<and> \<not> mined u)"
      by blast
    with s show ?thesis by blast
  qed
  show ?thesis by (rule conjI [OF c1 conjI [OF c2 conjI [OF c3 c4]]])
qed

text \<open>
  C2 as stated fails: a candidate of positive value whose index and nullifier are
  \<open>null\<close> is not skipped. The selector throws on it (first equation), although the
  next candidate alone would have covered the amount (second equation).
\<close>

theorem createSpendsLoop_unmined_counterexample:
  "createSpendsLoop exChain exAccount 3
     [exNote 5 None None, exNote 4 (Some 1) (Some [7])] (0, []) exWallet =
     (Inl AssertionFailed, exWallet) \<and>
   createSpendsLoop exChain exAccount 3 [exNote 4 (Some 1) (Some [7])] (0, []) exWallet =
     (Inr (4, [(dnv_note (exNote 4 (Some 1) (Some [7])),
                \<lparr>nw_treeSize = 10, nw_rootHash = [42]\<rparr>)]), exWallet)"
  by (simp add: exNote_def exChain_def checkNoteOnChainAndRepair_def)

text \<open>
  C2, amended. A candidate whose index or nullifier is \<open>null\<close> is skipped only when
  its value is \<open>\<le> 0\<close> (the value test comes first); with a positive value the selector
  fails on it with an assertion error and looks at no later candidate.
\<close>

theorem createSpendsLoop_unmined:
  assumes "dnv_index u = None \<or> dnv_nullifier u = None"
  shows "createSpendsLoop ch sender amountNeeded (u # rest) (amount, ns) w =
     (if note_value (dnv_note u) \<le> 0
      then createSpendsLoop ch sender amountNeeded rest (amount, ns) w
      else (Inl AssertionFailed, w))"
  using assms by (auto split: option.splits)

theorem createSpendsLoop_unmined_witness:
  "createSpendsLoop exChain exAccount 3
     (exNote 5 (Some 1) None # [exNote 4 (Some 1) (Some [7])]) (0, []) exWallet =
     (Inl AssertionFailed, exWallet) \<and>
   createSpendsLoop exChain exAccount 3
     (exNote 0 None None # [exNote 4 (Some 1) (Some [7])]) (0, []) exWallet =
   createSpendsLoop exChain exAccount 3 [exNote 4 (Some 1) (Some [7])] (0, []) exWallet"
proof -
  have a: "dnv_index (exNote 5 (Some 1) None) = None \<or> dnv_nullifier (exNote 5 (Some 1) None) = None"
    by (simp add: exNote_def)
  have b: "dnv_index (exNote 0 None None) = None \<or> dnv_nullifier (exNote 0 None None) = None"
    by (simp add: exNote_def)
  have va: "\<not> note_value (dnv_note (exNote 5 (Some 1) None)) \<le> 0"
    by (simp add: exNote_def)
  have vb: "note_value (dnv_note (exNote 0 None None)) \<le> 0"
    by (simp add: exNote_def)
  show ?thesis
    using createSpendsLoop_unmined [OF a, of exChain exAccount 3 "[exNote 4 (Some 1) (Some [7])]" 0 "[]" exWallet]
      createSpendsLoop_unmined [OF b, of exChain exAccount 3 "[exNote 4 (Some 1) (Some [7])]" 0 "[]" exWallet]
      va vb
    by (simp del: createSpendsLoop.simps)
qed

subsection \<open>Note decryption\<close>

text \<open>
  C5 fails on the code at \<open>initialNoteIndex = 0\<close>: \<open>if (currentNoteIndex)\<close> is false
  for 0, so the index is not incremented and the payloads of both notes of a
  transaction with two notes carry \<open>currentNoteIndex = 0\<close>, where the claim says 0
  and 1. The payloads are read from the batches submitted to the worker pool.
\<close>

theorem decryptNotes_initialNoteIndex_zero:
  "map currentNoteIndex
     (concat (wp_submitted (snd (decryptNotes w (wp\<lparr>wp_submitted := []\<rparr>)
        \<lparr>tx_hash = h, tx_notes = [n0, n1], tx_expiration = e, tx_isMinersFee = m\<rparr>
        (Some 0) (Some [a])))))
   = [Some 0, Some 0]"
  by (simp add: decryptNotes_def decryptNotesOf_def decryptNotesFromTransaction_def
        ifTruthy_def truthy_def batchSize_def Let_def)

lemma payloadOf_shift:
  "map (payloadOf a idx) (enumerate (Suc k) nts) =
   map (payloadOf a (map_option (\<lambda>i. i + 1) idx)) (enumerate k nts)"
  by (induction nts arbitrary: k) (auto simp: payloadOf_def option.map_comp comp_def algebra_simps)

lemma decryptNotesLoop_payloads:
  assumes "idx = None \<or> (\<exists>i. idx = Some i \<and> 0 < i)"
  shows "(case decryptNotesLoop a nts (dn, ps, idx, wp) of (dn1, ps1, idx1, wp1) \<Rightarrow>
            concat (wp_submitted wp1) @ ps1) =
         concat (wp_submitted wp) @ ps @ map (payloadOf a idx) (enumerate 0 nts)"
  using assms
proof (induction nts arbitrary: dn ps idx wp)
  case Nil
  then show ?case by simp
next
  case (Cons n nts)
  let ?i = "map_option (\<lambda>i. i + 1) idx"
  have i: "ifTruthy idx (\<lambda>n. Some (n + 1)) idx = ?i"
    using Cons.prems by (auto simp: ifTruthy_def truthy_def)
  have k: "?i = None \<or> (\<exists>i. ?i = Some i \<and> 0 < i)"
    using Cons.prems by auto
  have p: "\<lparr>serializedNote = n, incomingViewKey = acc_incomingViewKey a,
             outgoingViewKey = acc_outgoingViewKey a, spendingKey = acc_spendingKey a,
             currentNoteIndex = idx\<rparr> = payloadOf a idx (0, n)"
    by (cases idx) (simp_all add: payloadOf_def)
  show ?case
    using Cons.IH [OF k]
    by (simp add: i p Let_def decryptNotesFromTransaction_def payloadOf_shift
        del: One_nat_def split: prod.splits)
qed

text \<open>
  When \<open>initialNoteIndex\<close> is \<open>null\<close> or positive, \<open>decryptNotes\<close> builds for an account
  one payload per note of the transaction, in order, and submits them to the worker
  pool in that order; the payload of the note at position \<open>j\<close> carries
  \<open>currentNoteIndex = initialNoteIndex + j\<close>, or \<open>null\<close> when \<open>initialNoteIndex\<close> is
  \<open>null\<close>.
\<close>

theorem decryptNotes_payloads:
  assumes "initialNoteIndex = None \<or> (\<exists>i. initialNoteIndex = Some i \<and> 0 < i)"
  shows "concat (wp_submitted (snd (decryptNotesOf a t initialNoteIndex wp))) =
         concat (wp_submitted wp) @ map (payloadOf a initialNoteIndex) (enumerate 0 (tx_notes t))"
  using decryptNotesLoop_payloads [OF assms, of a "tx_notes t" "[]" "[]" wp]
  by (auto simp: decryptNotesOf_def decryptNotesFromTransaction_def split: prod.splits)

theorem decryptNotes_payloads_witness:
  "map currentNoteIndex
     (concat (wp_submitted (snd (decryptNotesOf exAccount (exTx\<lparr>tx_notes := [[9], [10]]\<rparr>)
        (Some 5) exWorker)))) = [Some 5, Some 6] \<and>
   map currentNoteIndex
     (concat (wp_submitted (snd (decryptNotesOf exAccount (exTx\<lparr>tx_notes := [[9], [10]]\<rparr>)
        None exWorker)))) = [None, None]"
proof -
  have a: "Some 5 = None \<or> (\<exists>i. Some (5::int) = Some i \<and> 0 < i)" by simp
  have b: "(None::int option) = None \<or> (\<exists>i. (None::int option) = Some i \<and> 0 < i)" by simp
  have e: "wp_submitted exWorker = []" by (simp add: exWorker_def)
  show ?thesis
    using decryptNotes_payloads [OF a, of exAccount "exTx\<lparr>tx_notes := [[9], [10]]\<rparr>" exWorker]
      decryptNotes_payloads [OF b, of exAccount "exTx\<lparr>tx_notes := [[9], [10]]\<rparr>" exWorker]
    by (simp add: e payloadOf_def enumerate_simps)
qed


subsection \<open>Account heads\<close>

lemma getEarliestHeadLoop_null:
  "\<exists>a\<in>set as. getHead w a = None \<Longrightarrow> getEarliestHeadLoop w as e = None"
  by (induction as arbitrary: e) (auto split: option.splits)

lemma getEarliestHeadLoop_min:
  assumes "\<forall>a\<in>set as. getHead w a \<noteq> None"
  shows "getEarliestHeadLoop w as (Some e) \<noteq> None \<and>
     (\<exists>h. getEarliestHeadLoop w as (Some e) = Some (head_hash h) \<and>
          (h = e \<or> (\<exists>a\<in>set as. getHead w a = Some h)) \<and>
          head_sequence h \<le> head_sequence e \<and>
          (\<forall>b\<in>set as. \<forall>hb. getHead w b = Some hb \<longrightarrow> head_sequence h \<le> head_sequence hb))"
  using assms
proof (induction as arbitrary: e)
  case Nil
  then show ?case by simp
next
  case (Cons a as)
  then obtain ha where ha: "getHead w a = Some ha" by auto
  have rest: "\<forall>a\<in>set as. getHead w a \<noteq> None" using Cons.prems by simp
  show ?case
  proof (cases "head_sequence e > head_sequence ha")
    case True
    from Cons.IH [OF rest, of ha] show ?thesis
      using ha True by (auto split: option.splits)
  next
    case False
    from Cons.IH [OF rest, of e] show ?thesis
      using ha False by (auto split: option.splits)
  qed
qed

text \<open>
  C9. If some loaded account has no head, \<open>getEarliestHeadHash\<close> returns \<open>null\<close>,
  whatever the heads of the other accounts, and \<open>scanTransactions\<close> called without
  \<open>fromHash\<close> begins at the genesis hash. If there are loaded accounts and each has a
  head, it returns the hash of the head of an account whose sequence is the minimum
  over all loaded accounts, and the scan begins there.
\<close>

theorem getEarliestHeadHash_cases:
  "((\<exists>a\<in>set (accounts w). getHead w a = None) \<longrightarrow>
      getEarliestHeadHash w = None \<and> scanBeginHash ch w None = bh_hash (chain_genesis ch)) \<and>
   (accounts w \<noteq> [] \<and> (\<forall>a\<in>set (accounts w). getHead w a \<noteq> None) \<longrightarrow>
      (\<exists>a\<in>set (accounts w). \<exists>h. getHead w a = Some h \<and>
          getEarliestHeadHash w = Some (head_hash h) \<and>
          scanBeginHash ch w None = head_hash h \<and>
          (\<forall>b\<in>set (accounts w). \<forall>hb. getHead w b = Some hb \<longrightarrow>
              head_sequence h \<le> head_sequence hb)))"
proof (intro conjI impI)
  assume "\<exists>a\<in>set (accounts w). getHead w a = None"
  then show "getEarliestHeadHash w = None"
    by (simp add: getEarliestHeadHash_def getEarliestHeadLoop_null)
  then show "scanBeginHash ch w None = bh_hash (chain_genesis ch)"
    by (simp add: scanBeginHash_def)
next
  assume a: "accounts w \<noteq> [] \<and> (\<forall>a\<in>set (accounts w). getHead w a \<noteq> None)"
  then obtain a0 as where as: "accounts w = a0 # as" by (cases "accounts w") auto
  then obtain h0 where h0: "getHead w a0 = Some h0" using a by auto
  have rest: "\<forall>a\<in>set as. getHead w a \<noteq> None" using a as by simp
  from getEarliestHeadLoop_min [OF rest, of h0]
  obtain h where h: "getEarliestHeadLoop w as (Some h0) = Some (head_hash h)"
      "h = h0 \<or> (\<exists>a\<in>set as. getHead w a = Some h)"
      "head_sequence h \<le> head_sequence h0"
      "\<forall>b\<in>set as. \<forall>hb. getHead w b = Some hb \<longrightarrow> head_sequence h \<le> head_sequence hb"
    by blast
  have e: "getEarliestHeadHash w = Some (head_hash h)"
    using as h0 h(1) by (simp add: getEarliestHeadHash_def)
  have "\<exists>a\<in>set (accounts w). getHead w a = Some h" using h(2) h0 as by auto
  moreover have "\<forall>b\<in>set (accounts w). \<forall>hb. getHead w b = Some hb \<longrightarrow>
              head_sequence h \<le> head_sequence hb"
    using h(3,4) h0 as by auto
  moreover have "scanBeginHash ch w None = head_hash h" using e by (simp add: scanBeginHash_def)
  ultimately show "\<exists>a\<in>set (accounts w). \<exists>h. getHead w a = Some h \<and>
          getEarliestHeadHash w = Some (head_hash h) \<and>
          scanBeginHash ch w None = head_hash h \<and>
          (\<forall>b\<in>set (accounts w). \<forall>hb. getHead w b = Some hb \<longrightarrow>
              head_sequence h \<le> head_sequence hb)"
    using e by blast
qed

theorem getEarliestHeadHash_cases_witness:
  "getEarliestHeadHash (exWalletTwo\<lparr>db_heads := (db_heads exWalletTwo)(''a2'' := None)\<rparr>) = None \<and>
   scanBeginHash exChain (exWalletTwo\<lparr>db_heads := (db_heads exWalletTwo)(''a2'' := None)\<rparr>) None = [1] \<and>
   (\<exists>a\<in>set (accounts exWalletTwo). \<exists>h. getHead exWalletTwo a = Some h \<and>
       getEarliestHeadHash exWalletTwo = Some (head_hash h) \<and>
       scanBeginHash exChain exWalletTwo None = head_hash h \<and>
       (\<forall>b\<in>set (accounts exWalletTwo). \<forall>hb. getHead exWalletTwo b = Some hb \<longrightarrow>
           head_sequence h \<le> head_sequence hb)) \<and>
   getEarliestHeadHash exWalletTwo = Some [3]"
proof -
  let ?w = "exWalletTwo\<lparr>db_heads := (db_heads exWalletTwo)(''a2'' := None)\<rparr>"
  have n: "\<exists>a\<in>set (accounts ?w). getHead ?w a = None"
    by (simp add: exWalletTwo_def exWallet_def exAccount_def exAccount2_def getHead_def)
  have t: "accounts exWalletTwo \<noteq> [] \<and> (\<forall>a\<in>set (accounts exWalletTwo). getHead exWalletTwo a \<noteq> None)"
    by (simp add: exWalletTwo_def exWallet_def exAccount_def exAccount2_def getHead_def)
  have g: "bh_hash (chain_genesis exChain) = [1]"
    by (simp add: exChain_def exHeader_def)
  have v: "getEarliestHeadHash exWalletTwo = Some [3]"
    by (simp add: getEarliestHeadHash_def exWalletTwo_def exWallet_def exAccount_def
        exAccount2_def getHead_def)
  show ?thesis
    using getEarliestHeadHash_cases [of ?w exChain, THEN conjunct1, THEN mp, OF n]
      getEarliestHeadHash_cases [of exWalletTwo exChain, THEN conjunct2, THEN mp, OF t] g v
    by simp
qed

lemma getAccountByName_accountsSet:
  "getAccountByName (accountsSet a as) (acc_name a) \<noteq> None"
  by (induction as) auto

lemma accountsSet_mem: "a \<in> set (accountsSet a as)"
  by (induction as) auto

text \<open>
  C10. \<open>createAccount\<close> with a name that no loaded account has returns a new account
  of the wallet whose head is the chain cursor \<open>{hash: chainProcessor.hash, sequence:
  chainProcessor.sequence}\<close>, or \<open>null\<close> when the hash or the sequence of the cursor is
  \<open>null\<close>. Whenever \<open>importAccount\<close> returns an account, that account is in the wallet
  and its head is \<open>null\<close>.
\<close>

theorem createAccount_importAccount_head:
  "(getAccountByName (accounts w) name = None \<longrightarrow>
      (\<exists>a w'. createAccount k uuid name setDefault w = Inr (a, w') \<and> acc_id a = uuid \<and>
         a \<in> set (accounts w') \<and>
         getHead w' a =
           (case chainProcessor_hash w of
              None \<Rightarrow> None
            | Some hash \<Rightarrow>
                (case chainProcessor_sequence w of
                   None \<Rightarrow> None
                 | Some sequence \<Rightarrow> Some \<lparr>head_hash = hash, head_sequence = sequence\<rparr>)))) \<and>
   (\<forall>a w'. importAccount gen val uuid iname ikey w = Inr (a, w') \<longrightarrow>
       acc_id a = uuid \<and> a \<in> set (accounts w') \<and> getHead w' a = None)"
proof (rule conjI, rule impI)
  assume n: "getAccountByName (accounts w) name = None"
  show "\<exists>a w'. createAccount k uuid name setDefault w = Inr (a, w') \<and> acc_id a = uuid \<and>
         a \<in> set (accounts w') \<and>
         getHead w' a =
           (case chainProcessor_hash w of
              None \<Rightarrow> None
            | Some hash \<Rightarrow>
                (case chainProcessor_sequence w of
                   None \<Rightarrow> None
                 | Some sequence \<Rightarrow> Some \<lparr>head_hash = hash, head_sequence = sequence\<rparr>))"
    using n getAccountByName_accountsSet [of "\<lparr>acc_id = uuid, acc_name = name,
            acc_incomingViewKey = incoming_view_key k, acc_outgoingViewKey = outgoing_view_key k,
            acc_spendingKey = spending_key k, acc_publicAddress = public_address k\<rparr>" "accounts w"]
    by (auto simp: createAccount_def Let_def skipRescan_def updateHead_def getHead_def
        setDefaultAccount_def accountsSet_mem split: option.splits sum.splits)
next
  show "\<forall>a w'. importAccount gen val uuid iname ikey w = Inr (a, w') \<longrightarrow>
       acc_id a = uuid \<and> a \<in> set (accounts w') \<and> getHead w' a = None"
    by (auto simp: importAccount_def Let_def updateHead_def getHead_def accountsSet_mem
        split: if_splits)
qed

theorem createAccount_importAccount_head_witness:
  "(\<exists>a w'. createAccount exKey ''a3'' ''carol'' True exWalletAtOne = Inr (a, w') \<and>
       acc_id a = ''a3'' \<and> a \<in> set (accounts w') \<and>
       getHead w' a = Some \<lparr>head_hash = [1], head_sequence = 1\<rparr>) \<and>
   (\<exists>a w'. importAccount (\<lambda>sk. exKey) (\<lambda>a. True) ''a3'' ''carol'' ''sk3'' exWalletAtOne = Inr (a, w') \<and>
       acc_id a = ''a3'' \<and> a \<in> set (accounts w') \<and> getHead w' a = None)"
proof -
  have n: "getAccountByName (accounts exWalletAtOne) ''carol'' = None"
    by (simp add: exWalletAtOne_def exWallet_def exAccount_def)
  have c: "\<exists>a w'. createAccount exKey ''a3'' ''carol'' True exWalletAtOne = Inr (a, w') \<and>
       acc_id a = ''a3'' \<and> a \<in> set (accounts w') \<and>
       getHead w' a = Some \<lparr>head_hash = [1], head_sequence = 1\<rparr>"
    using createAccount_importAccount_head
      [of exWalletAtOne "''carol''" exKey "''a3''" True, THEN conjunct1, THEN mp, OF n]
    by (simp add: exWalletAtOne_def exWallet_def)
  have "\<exists>a w'. importAccount (\<lambda>sk. exKey) (\<lambda>a. True) ''a3'' ''carol'' ''sk3'' exWalletAtOne = Inr (a, w')"
    by (simp add: importAccount_def Let_def exWalletAtOne_def exWallet_def exAccount_def
        listAccounts_def)
  then obtain a w' where
    i: "importAccount (\<lambda>sk. exKey) (\<lambda>a. True) ''a3'' ''carol'' ''sk3'' exWalletAtOne = Inr (a, w')"
    by blast
  have "acc_id a = ''a3'' \<and> a \<in> set (accounts w') \<and> getHead w' a = None"
    using createAccount_importAccount_head
      [of exWalletAtOne "''carol''" exKey "''a3''" True "\<lambda>sk. exKey" "\<lambda>a. True" "''carol''" "''sk3''",
        THEN conjunct2, THEN spec, THEN spec, THEN mp, OF i] .
  then show ?thesis using c i by blast
qed

subsection \<open>Block application\<close>


lemma decryptNotesLoop_worker:
  "wp_decryptNotes wp2 = wp_decryptNotes wp \<Longrightarrow>
   (case decryptNotesLoop a nts (dn, ps, idx, wp) of (dn1, ps1, idx1, wp1) \<Rightarrow>
    case decryptNotesLoop a nts (dn, ps, idx, wp2) of (dn2, ps2, idx2, wp3) \<Rightarrow>
      dn1 = dn2 \<and> ps1 = ps2 \<and> idx1 = idx2 \<and>
      wp_decryptNotes wp1 = wp_decryptNotes wp \<and> wp_decryptNotes wp3 = wp_decryptNotes wp)"
proof (induction nts arbitrary: dn ps idx wp wp2)
  case Nil
  then show ?case by simp
next
  case (Cons n nts)
  let ?p = "ps @ [\<lparr>serializedNote = n, incomingViewKey = acc_incomingViewKey a,
             outgoingViewKey = acc_outgoingViewKey a, spendingKey = acc_spendingKey a,
             currentNoteIndex = idx\<rparr>]"
  let ?i = "ifTruthy idx (\<lambda>n. Some (n + 1)) idx"
  show ?case
  proof (cases "batchSize \<le> length ?p")
    case True
    have e: "wp_decryptNotes (wp2\<lparr>wp_submitted := wp_submitted wp2 @ [?p]\<rparr>) =
             wp_decryptNotes (wp\<lparr>wp_submitted := wp_submitted wp @ [?p]\<rparr>)"
      using Cons.prems by simp
    from Cons.IH [OF e, of "dn @ List.map_filter (\<lambda>r. r) (wp_decryptNotes wp ?p)" "[]" ?i]
    show ?thesis
      using True Cons.prems by (simp add: Let_def decryptNotesFromTransaction_def)
  next
    case False
    from Cons.IH [OF Cons.prems, of dn ?p ?i]
    show ?thesis
      using False by (simp add: Let_def)
  qed
qed

lemma decryptNotesOf_worker:
  assumes "wp_decryptNotes wp2 = wp_decryptNotes wp"
  shows "fst (decryptNotesOf a t i wp2) = fst (decryptNotesOf a t i wp) \<and>
         wp_decryptNotes (snd (decryptNotesOf a t i wp2)) = wp_decryptNotes wp"
  using decryptNotesLoop_worker [OF assms, of a "tx_notes t" "[]" "[]" i]
  by (auto simp: decryptNotesOf_def decryptNotesFromTransaction_def assms split: prod.splits)

lemma decryptNotes_single:
  "decryptNotes w wp t i (Some [a]) =
     (if fst (decryptNotesOf a t i wp) = [] then []
      else [(acc_id a, fst (decryptNotesOf a t i wp))], snd (decryptNotesOf a t i wp))"
  by (simp add: decryptNotes_def split: prod.splits)

lemma readsLeft_signal: "readsLeft (map_option (signal q) sc) = readsLeft sc"
  by (cases sc) (simp_all add: readsLeft_def signal_def)

lemma readsLeft_signalComplete: "readsLeft (map_option signalComplete sc) = readsLeft sc"
  by (cases sc) (simp_all add: readsLeft_def signalComplete_def)

lemma scanIsAborted_reads:
  "fst (scanIsAborted sc) = (readsLeft sc = Some 0) \<and>
   readsLeft (snd (scanIsAborted sc)) =
     (case readsLeft sc of None \<Rightarrow> None | Some k \<Rightarrow> Some (k - 1))"
  by (cases sc) (auto simp: scanIsAborted_def isAborted_def readsLeft_def split: option.splits)

lemma connectCalls_Cons:
  "connectCalls wp a bh (ti # txs) =
     (if decryptedFor wp a ti = [] then []
      else [ConnectTransaction bh (fst ti) (decryptedFor wp a ti)]) @ connectCalls wp a bh txs"
  by (simp add: connectCalls_def)

text \<open>
  The loop over the transactions of a block for one account: with \<open>k\<close> reads of the
  abort signal left, it connects the first \<open>k\<close> transactions and returns on the abort
  when there are more; it uses up one read for each transaction it gets to.
\<close>

lemma connectTransactions_reads:
  assumes "wp_decryptNotes wp2 = wp_decryptNotes wp"
  shows "\<exists>sc1 wp1. connectTransactions w a bh txs (calls, sc, wp2) =
           ((case readsLeft sc of None \<Rightarrow> False | Some k \<Rightarrow> k < length txs),
            calls @ connectCalls wp a bh
                      (case readsLeft sc of None \<Rightarrow> txs | Some k \<Rightarrow> take k txs),
            sc1, wp1) \<and>
         readsLeft sc1 =
           (case readsLeft sc of None \<Rightarrow> None | Some k \<Rightarrow> Some (k - length txs)) \<and>
         wp_decryptNotes wp1 = wp_decryptNotes wp"
  using assms
proof (induction txs arbitrary: calls sc wp2)
  case Nil
  then show ?case by (cases "readsLeft sc") (simp_all add: connectCalls_def)
next
  case (Cons ti txs)
  obtain t i where ti: "ti = (t, i)" by (cases ti)
  obtain ab sc0 where r: "scanIsAborted sc = (ab, sc0)" by (cases "scanIsAborted sc")
  have ab: "ab = (readsLeft sc = Some 0)"
    and left: "readsLeft sc0 = (case readsLeft sc of None \<Rightarrow> None | Some k \<Rightarrow> Some (k - 1))"
    using scanIsAborted_reads [of sc] r by simp_all
  show ?case
  proof (cases ab)
    case True
    then have z: "readsLeft sc = Some 0" using ab by simp
    have "connectTransactions w a bh (ti # txs) (calls, sc, wp2) =
            (True, calls, map_option signalComplete sc0, wp2)"
      using r True ti by simp
    moreover have "readsLeft (map_option signalComplete sc0) = Some 0"
      using left z by (simp add: readsLeft_signalComplete)
    ultimately show ?thesis
      using z Cons.prems by (simp add: connectCalls_def)
  next
    case False
    let ?d = "fst (decryptNotesOf a t i wp2)"
    let ?wp = "snd (decryptNotesOf a t i wp2)"
    let ?sc = "if ?d = [] then sc0 else map_option (signal (bh_sequence bh)) sc0"
    let ?calls = "if ?d = [] then calls else calls @ [ConnectTransaction bh t ?d]"
    have d: "?d = decryptedFor wp a ti" "wp_decryptNotes ?wp = wp_decryptNotes wp"
      using decryptNotesOf_worker [OF Cons.prems, of a t i] ti by (simp_all add: decryptedFor_def)
    have step: "connectTransactions w a bh (ti # txs) (calls, sc, wp2) =
        connectTransactions w a bh txs (?calls, ?sc, ?wp)"
      using r False ti by (simp add: decryptNotes_single)
    have l: "readsLeft ?sc = (case readsLeft sc of None \<Rightarrow> None | Some k \<Rightarrow> Some (k - 1))"
      using left by (simp add: readsLeft_signal)
    from Cons.IH [OF d(2), of ?calls ?sc]
    obtain sc1 wp1 where h:
      "connectTransactions w a bh txs (?calls, ?sc, ?wp) =
         ((case readsLeft ?sc of None \<Rightarrow> False | Some k \<Rightarrow> k < length txs),
          ?calls @ connectCalls wp a bh
                     (case readsLeft ?sc of None \<Rightarrow> txs | Some k \<Rightarrow> take k txs),
          sc1, wp1)"
      "readsLeft sc1 = (case readsLeft ?sc of None \<Rightarrow> None | Some k \<Rightarrow> Some (k - length txs))"
      "wp_decryptNotes wp1 = wp_decryptNotes wp"
      by blast
    have c: "?calls = calls @ (if decryptedFor wp a ti = [] then []
                               else [ConnectTransaction bh (fst ti) (decryptedFor wp a ti)])"
      using d(1) ti by simp
    show ?thesis
    proof (cases "readsLeft sc")
      case None
      then have "readsLeft ?sc = None" using l by simp
      then show ?thesis
        using h None c unfolding step by (simp add: connectCalls_Cons)
    next
      case (Some k)
      then obtain j where j: "k = Suc j" using False ab by (cases k) auto
      then have "readsLeft ?sc = Some j" using l Some by simp
      then show ?thesis
        using h Some j c unfolding step by (simp add: connectCalls_Cons)
    qed
  qed
qed


lemma accountState_commit:
  "accountState (commit a calls w) i =
     (if i = acc_id a \<and> calls \<noteq> []
      then (db_accounts w i, db_heads w i, db_journal w i @ [calls], db_transactions w i,
            db_decryptedNotes w i)
      else accountState w i)"
  by (simp add: accountState_def commit_def)

lemma accountState_updateHead:
  "accountState (updateHead a h w) i =
     (if i = acc_id a
      then (db_accounts w i, h, db_journal w i, db_transactions w i, db_decryptedNotes w i)
      else accountState w i)"
  by (simp add: accountState_def updateHead_def)

lemma accountState_scan: "accountState (w\<lparr>scan := x\<rparr>) i = accountState w i"
  by (simp add: accountState_def)

lemma connectAccounts_frame:
  "i \<notin> acc_id ` set as \<Longrightarrow>
   accountState (fst (connectAccounts ch bh as (w, sc, wp))) i = accountState w i"
proof (induction as arbitrary: w sc wp)
  case Nil
  then show ?case by simp
next
  case (Cons a as)
  obtain ab calls sc1 wp1 where r:
    "connectTransactions w a bh (chain_getBlockTransactions ch bh) ([], sc, wp) = (ab, calls, sc1, wp1)"
    by (metis prod_cases4)
  have i: "i \<noteq> acc_id a" "i \<notin> acc_id ` set as" using Cons.prems by auto
  show ?case
    using r i Cons.IH [OF i(2)]
    by (cases ab) (simp_all add: Let_def accountState_commit accountState_updateHead accountState_scan)
qed

text \<open>
  The loop over the accounts that pass the filter: the account after \<open>before\<close> is
  reached with the reads of the abort signal that the accounts before it have left,
  one read for each transaction of the block. With a read left for each transaction
  it gets the calls and the head; otherwise it keeps the calls made before the
  abort is read, and its head.
\<close>

lemma connectAccounts_reads:
  assumes "wp_decryptNotes wp2 = wp_decryptNotes wp"
    and "distinct (map acc_id (before @ a # after))"
  shows "accountState (fst (connectAccounts ch bh (before @ a # after) (w, sc, wp2))) (acc_id a) =
     (if (case readsLeft sc of
            None \<Rightarrow> True
          | Some k \<Rightarrow> length (chain_getBlockTransactions ch bh) \<le>
                       k - length before * length (chain_getBlockTransactions ch bh))
      then (db_accounts w (acc_id a),
            Some \<lparr>head_hash = bh_hash bh, head_sequence = bh_sequence bh\<rparr>,
            db_journal w (acc_id a) @
              [connectCalls wp a bh (chain_getBlockTransactions ch bh) @
               [UpdateHead (Some \<lparr>head_hash = bh_hash bh, head_sequence = bh_sequence bh\<rparr>)]],
            db_transactions w (acc_id a), db_decryptedNotes w (acc_id a))
      else (db_accounts w (acc_id a), db_heads w (acc_id a),
            db_journal w (acc_id a) @
              (if connectCalls wp a bh
                    (take (the (readsLeft sc) - length before * length (chain_getBlockTransactions ch bh))
                       (chain_getBlockTransactions ch bh)) = []
               then []
               else [connectCalls wp a bh
                       (take (the (readsLeft sc) - length before * length (chain_getBlockTransactions ch bh))
                          (chain_getBlockTransactions ch bh))]),
            db_transactions w (acc_id a), db_decryptedNotes w (acc_id a)))"
  using assms
proof (induction before arbitrary: w sc wp2)
  case Nil
  let ?txs = "chain_getBlockTransactions ch bh"
  let ?h = "Some \<lparr>head_hash = bh_hash bh, head_sequence = bh_sequence bh\<rparr>"
  from connectTransactions_reads [OF Nil.prems(1), of w a bh ?txs "[]" sc]
  obtain sc1 wp1 where r:
    "connectTransactions w a bh ?txs ([], sc, wp2) =
       ((case readsLeft sc of None \<Rightarrow> False | Some k \<Rightarrow> k < length ?txs),
        connectCalls wp a bh (case readsLeft sc of None \<Rightarrow> ?txs | Some k \<Rightarrow> take k ?txs),
        sc1, wp1)"
    by auto
  have nf: "acc_id a \<notin> acc_id ` set after" using Nil.prems(2) by auto
  show ?case
  proof (cases "readsLeft sc")
    case None
    let ?w1 = "commit a (connectCalls wp a bh ?txs @ [UpdateHead ?h]) (updateHead a ?h w)"
    have "connectAccounts ch bh ([] @ a # after) (w, sc, wp2) = connectAccounts ch bh after (?w1, sc1, wp1)"
      using r None by (simp add: Let_def)
    then have f: "accountState (fst (connectAccounts ch bh ([] @ a # after) (w, sc, wp2))) (acc_id a) =
        accountState ?w1 (acc_id a)"
      using connectAccounts_frame [OF nf, of ch bh ?w1 sc1 wp1] by simp
    have v: "accountState ?w1 (acc_id a) =
        (db_accounts w (acc_id a), ?h,
         db_journal w (acc_id a) @ [connectCalls wp a bh ?txs @ [UpdateHead ?h]],
         db_transactions w (acc_id a), db_decryptedNotes w (acc_id a))"
      by (simp add: accountState_def commit_def updateHead_def)
    show ?thesis unfolding f v using None by simp
  next
    case (Some k)
    show ?thesis
    proof (cases "k < length ?txs")
      case True
      let ?calls = "connectCalls wp a bh (take k ?txs)"
      let ?w1 = "(commit a ?calls w)\<lparr>scan := None\<rparr>"
      have "connectAccounts ch bh ([] @ a # after) (w, sc, wp2) = connectAccounts ch bh after (?w1, sc1, wp1)"
        using r Some True by simp
      then have f: "accountState (fst (connectAccounts ch bh ([] @ a # after) (w, sc, wp2))) (acc_id a) =
          accountState ?w1 (acc_id a)"
        using connectAccounts_frame [OF nf, of ch bh ?w1 sc1 wp1] by simp
      have v: "accountState ?w1 (acc_id a) =
          (db_accounts w (acc_id a), db_heads w (acc_id a),
           db_journal w (acc_id a) @ (if ?calls = [] then [] else [?calls]),
           db_transactions w (acc_id a), db_decryptedNotes w (acc_id a))"
        by (simp add: accountState_def commit_def)
      show ?thesis unfolding f v using Some True by simp
    next
      case False
      let ?w1 = "commit a (connectCalls wp a bh ?txs @ [UpdateHead ?h]) (updateHead a ?h w)"
      have "connectAccounts ch bh ([] @ a # after) (w, sc, wp2) = connectAccounts ch bh after (?w1, sc1, wp1)"
        using r Some False by (simp add: Let_def)
      then have f: "accountState (fst (connectAccounts ch bh ([] @ a # after) (w, sc, wp2))) (acc_id a) =
          accountState ?w1 (acc_id a)"
        using connectAccounts_frame [OF nf, of ch bh ?w1 sc1 wp1] by simp
      have v: "accountState ?w1 (acc_id a) =
          (db_accounts w (acc_id a), ?h,
           db_journal w (acc_id a) @ [connectCalls wp a bh ?txs @ [UpdateHead ?h]],
           db_transactions w (acc_id a), db_decryptedNotes w (acc_id a))"
        by (simp add: accountState_def commit_def updateHead_def)
      show ?thesis unfolding f v using Some False by simp
    qed
  qed
next
  case (Cons b before)
  let ?txs = "chain_getBlockTransactions ch bh"
  let ?h = "Some \<lparr>head_hash = bh_hash bh, head_sequence = bh_sequence bh\<rparr>"
  from connectTransactions_reads [OF Cons.prems(1), of w b bh ?txs "[]" sc]
  obtain ab calls sc1 wp1 where r:
    "connectTransactions w b bh ?txs ([], sc, wp2) = (ab, calls, sc1, wp1)"
    "readsLeft sc1 = (case readsLeft sc of None \<Rightarrow> None | Some k \<Rightarrow> Some (k - length ?txs))"
    "wp_decryptNotes wp1 = wp_decryptNotes wp"
    by auto
  let ?w1 = "if ab then (commit b calls w)\<lparr>scan := None\<rparr>
             else commit b (calls @ [UpdateHead ?h]) (updateHead b ?h w)"
  have step: "connectAccounts ch bh ((b # before) @ a # after) (w, sc, wp2) =
      connectAccounts ch bh (before @ a # after) (?w1, sc1, wp1)"
    using r(1) by (simp add: Let_def)
  have ne: "acc_id a \<noteq> acc_id b" and d: "distinct (map acc_id (before @ a # after))"
    using Cons.prems(2) by auto
  have "accountState ?w1 (acc_id a) = accountState w (acc_id a)"
    using ne by (simp add: accountState_commit accountState_updateHead accountState_scan)
  then have same: "db_accounts ?w1 (acc_id a) = db_accounts w (acc_id a)"
    "db_heads ?w1 (acc_id a) = db_heads w (acc_id a)"
    "db_journal ?w1 (acc_id a) = db_journal w (acc_id a)"
    "db_transactions ?w1 (acc_id a) = db_transactions w (acc_id a)"
    "db_decryptedNotes ?w1 (acc_id a) = db_decryptedNotes w (acc_id a)"
    by (simp_all add: accountState_def)
  have ar: "\<And>k. k - length ?txs - length before * length ?txs =
               k - length (b # before) * length ?txs"
    by simp
  show ?case
  proof (cases "readsLeft sc")
    case None
    then have "readsLeft sc1 = None" using r(2) by simp
    then show ?thesis
      using Cons.IH [OF r(3) d, of ?w1 sc1] None unfolding step same by simp
  next
    case (Some k)
    then have "readsLeft sc1 = Some (k - length ?txs)" using r(2) by simp
    then show ?thesis
      using Cons.IH [OF r(3) d, of ?w1 sc1] Some unfolding step same by (simp add: ar)
  qed
qed


lemma acc_id_filter:
  assumes "distinct (map acc_id as)" and "a \<in> set as" and "\<not> P a"
  shows "acc_id a \<notin> acc_id ` set (filter P as)"
proof
  assume "acc_id a \<in> acc_id ` set (filter P as)"
  then obtain b where b: "b \<in> set as" "P b" "acc_id b = acc_id a" by auto
  have "inj_on acc_id (set as)" using assms(1) by (simp add: distinct_map)
  then have "a = b" using b(1,3) assms(2) by (auto dest: inj_onD)
  then show False using b(2) assms(3) by simp
qed

lemma exDistinct: "distinct (map acc_id (accounts exWalletTwo))"
  by (simp add: exWalletTwo_def exWallet_def exAccount_def exAccount2_def)

lemma exMem1: "exAccount \<in> set (accounts exWalletTwo)"
  by (simp add: exWalletTwo_def exWallet_def)

lemma exMem2: "exAccount2 \<in> set (accounts exWalletTwo)"
  by (simp add: exWalletTwo_def exWallet_def)

lemma connectFilter_iff:
  "connectFilter w bh =
     (\<lambda>b. (getHead w b = None \<and> bh_sequence bh = 1) \<or>
          (\<exists>h. getHead w b = Some h \<and> head_hash h = bh_previousBlockHash bh))"
  by (rule ext) (simp add: connectFilter_def equalsNullable_def split: option.splits)

text \<open>
  C3 as stated fails: the head of \<open>a1\<close> equals the previous block hash of block
  \<open>[6]\<close>, yet \<open>connectBlock\<close> called with an aborted scan token leaves the head of
  \<open>a1\<close> at block \<open>[5]\<close>: the loop over the block's transactions returns at its first
  transaction, before \<open>updateHead\<close>.
\<close>

theorem connectBlock_aborted_counterexample:
  "getHead exWalletTwo exAccount = Some \<lparr>head_hash = [5], head_sequence = 5\<rparr> \<and>
   bh_previousBlockHash exHeader6 = [5] \<and>
   getHead (fst (connectBlock exChain exHeader6 (Some exScanAborted) exWorker exWalletTwo)) exAccount
     = Some \<lparr>head_hash = [5], head_sequence = 5\<rparr> \<and>
   getHead (fst (connectBlock exChain exHeader6 (Some exScanAborted) exWorker exWalletTwo)) exAccount
     \<noteq> Some \<lparr>head_hash = bh_hash exHeader6, head_sequence = bh_sequence exHeader6\<rparr>"
  by (simp add: getHead_def connectBlock_def listAccounts_def connectFilter_def exWalletTwo_def
      exWallet_def exAccount_def exAccount2_def exHeader6_def equalsNullable_def exChain_def
      scanIsAborted_def isAborted_def exScanAborted_def commit_def)

text \<open>
  C3, amended. For every block header and every loaded account \<open>a\<close> (the account ids
  are distinct, as the keys of the \<open>Map\<close> are). An account whose head hash differs
  from \<open>header.previousBlockHash\<close>, or that has no head while \<open>header.sequence\<close> is
  not 1, is left unchanged by \<open>connectBlock\<close>, whatever the scan token. The other
  accounts are visited in the order of the \<open>Map\<close>, and the abort signal of the scan
  token is read once before each transaction of the block for each of them. If no
  token is passed, or the signal is not set before or during the call, the account
  gets, in one database transaction, \<open>connectTransaction\<close> for the transactions of the
  block of which the worker pool decrypts a note for it, in block order, and then
  the head \<open>{hash: header.hash, sequence: header.sequence}\<close>. If the signal is set when
  \<open>k\<close> reads have found it clear, the account whose turn comes after the accounts
  \<open>before\<close> has \<open>k - length before * n\<close> reads left for the \<open>n\<close> transactions of the
  block: with \<open>n\<close> or more left it gets the calls and the head as above; with fewer it
  keeps its head, and the database transaction commits \<open>connectTransaction\<close> for the
  transactions before the read that finds the signal set (nothing when there is no
  such call).
\<close>

theorem connectBlock_accounts:
  assumes "distinct (map acc_id (accounts w))" and "a \<in> set (accounts w)"
  shows "(\<not> ((getHead w a = None \<and> bh_sequence bh = 1) \<or>
              (\<exists>h. getHead w a = Some h \<and> head_hash h = bh_previousBlockHash bh)) \<longrightarrow>
            accountState (fst (connectBlock ch bh sc wp w)) (acc_id a) = accountState w (acc_id a)) \<and>
         (((getHead w a = None \<and> bh_sequence bh = 1) \<or>
           (\<exists>h. getHead w a = Some h \<and> head_hash h = bh_previousBlockHash bh)) \<and>
          (sc = None \<or> (\<exists>st. sc = Some st \<and> \<not> ss_isAborted st \<and> ss_abortAfter st = None)) \<longrightarrow>
            accountState (fst (connectBlock ch bh sc wp w)) (acc_id a) =
              (db_accounts w (acc_id a),
               Some \<lparr>head_hash = bh_hash bh, head_sequence = bh_sequence bh\<rparr>,
               db_journal w (acc_id a) @
                 [connectCalls wp a bh (chain_getBlockTransactions ch bh) @
                  [UpdateHead (Some \<lparr>head_hash = bh_hash bh, head_sequence = bh_sequence bh\<rparr>)]],
               db_transactions w (acc_id a), db_decryptedNotes w (acc_id a))) \<and>
         (\<forall>st k before after.
            sc = Some st \<and>
            (ss_isAborted st \<and> k = 0 \<or> \<not> ss_isAborted st \<and> ss_abortAfter st = Some k) \<and>
            filter (\<lambda>b. (getHead w b = None \<and> bh_sequence bh = 1) \<or>
                        (\<exists>h. getHead w b = Some h \<and> head_hash h = bh_previousBlockHash bh))
              (accounts w) = before @ a # after \<longrightarrow>
            accountState (fst (connectBlock ch bh sc wp w)) (acc_id a) =
              (if length (chain_getBlockTransactions ch bh) \<le>
                  k - length before * length (chain_getBlockTransactions ch bh)
               then (db_accounts w (acc_id a),
                     Some \<lparr>head_hash = bh_hash bh, head_sequence = bh_sequence bh\<rparr>,
                     db_journal w (acc_id a) @
                       [connectCalls wp a bh (chain_getBlockTransactions ch bh) @
                        [UpdateHead (Some \<lparr>head_hash = bh_hash bh,
                                            head_sequence = bh_sequence bh\<rparr>)]],
                     db_transactions w (acc_id a), db_decryptedNotes w (acc_id a))
               else (db_accounts w (acc_id a), db_heads w (acc_id a),
                     db_journal w (acc_id a) @
                       (if connectCalls wp a bh
                             (take (k - length before * length (chain_getBlockTransactions ch bh))
                                (chain_getBlockTransactions ch bh)) = []
                        then []
                        else [connectCalls wp a bh
                                (take (k - length before * length (chain_getBlockTransactions ch bh))
                                   (chain_getBlockTransactions ch bh))]),
                     db_transactions w (acc_id a), db_decryptedNotes w (acc_id a))))"
proof -
  let ?M = "\<lambda>b. (getHead w b = None \<and> bh_sequence bh = 1) \<or>
                (\<exists>h. getHead w b = Some h \<and> head_hash h = bh_previousBlockHash bh)"
  let ?txs = "chain_getBlockTransactions ch bh"
  let ?full = "(db_accounts w (acc_id a),
               Some \<lparr>head_hash = bh_hash bh, head_sequence = bh_sequence bh\<rparr>,
               db_journal w (acc_id a) @
                 [connectCalls wp a bh ?txs @
                  [UpdateHead (Some \<lparr>head_hash = bh_hash bh, head_sequence = bh_sequence bh\<rparr>)]],
               db_transactions w (acc_id a), db_decryptedNotes w (acc_id a))"
  have run: "connectBlock ch bh sc wp w = connectAccounts ch bh (filter ?M (accounts w)) (w, sc, wp)"
    by (simp add: connectBlock_def listAccounts_def connectFilter_iff)
  have d: "distinct (map acc_id (filter ?M (accounts w)))"
    using assms(1) by (simp add: distinct_map_filter)
  have p1: "\<not> ?M a \<longrightarrow>
      accountState (fst (connectBlock ch bh sc wp w)) (acc_id a) = accountState w (acc_id a)"
  proof
    assume "\<not> ?M a"
    then have "acc_id a \<notin> acc_id ` set (filter ?M (accounts w))"
      using acc_id_filter [OF assms, of ?M] by blast
    then show "accountState (fst (connectBlock ch bh sc wp w)) (acc_id a) = accountState w (acc_id a)"
      unfolding run by (rule connectAccounts_frame)
  qed
  have p2: "?M a \<and> (sc = None \<or> (\<exists>st. sc = Some st \<and> \<not> ss_isAborted st \<and> ss_abortAfter st = None)) \<longrightarrow>
      accountState (fst (connectBlock ch bh sc wp w)) (acc_id a) = ?full"
  proof
    assume c: "?M a \<and> (sc = None \<or> (\<exists>st. sc = Some st \<and> \<not> ss_isAborted st \<and> ss_abortAfter st = None))"
    then have "a \<in> set (filter ?M (accounts w))" using assms(2) by simp
    then obtain before after where s: "filter ?M (accounts w) = before @ a # after"
      by (meson split_list)
    have n: "readsLeft sc = None" using c by (auto simp: readsLeft_def)
    have d2: "distinct (map acc_id (before @ a # after))" using d s by simp
    show "accountState (fst (connectBlock ch bh sc wp w)) (acc_id a) = ?full"
      unfolding run s using connectAccounts_reads [OF refl d2, of ch bh w sc wp] n by simp
  qed
  have p3: "\<forall>st k before after.
      sc = Some st \<and>
      (ss_isAborted st \<and> k = 0 \<or> \<not> ss_isAborted st \<and> ss_abortAfter st = Some k) \<and>
      filter ?M (accounts w) = before @ a # after \<longrightarrow>
      accountState (fst (connectBlock ch bh sc wp w)) (acc_id a) =
        (if length ?txs \<le> k - length before * length ?txs then ?full
         else (db_accounts w (acc_id a), db_heads w (acc_id a),
               db_journal w (acc_id a) @
                 (if connectCalls wp a bh (take (k - length before * length ?txs) ?txs) = []
                  then []
                  else [connectCalls wp a bh (take (k - length before * length ?txs) ?txs)]),
               db_transactions w (acc_id a), db_decryptedNotes w (acc_id a)))"
  proof (intro allI impI)
    fix st :: scanState and k :: nat and before after :: "account list"
    assume c: "sc = Some st \<and>
      (ss_isAborted st \<and> k = 0 \<or> \<not> ss_isAborted st \<and> ss_abortAfter st = Some k) \<and>
      filter ?M (accounts w) = before @ a # after"
    have n: "readsLeft sc = Some k" using c by (auto simp: readsLeft_def)
    have d2: "distinct (map acc_id (before @ a # after))" using d c by simp
    have s: "filter ?M (accounts w) = before @ a # after" using c by simp
    show "accountState (fst (connectBlock ch bh sc wp w)) (acc_id a) =
        (if length ?txs \<le> k - length before * length ?txs then ?full
         else (db_accounts w (acc_id a), db_heads w (acc_id a),
               db_journal w (acc_id a) @
                 (if connectCalls wp a bh (take (k - length before * length ?txs) ?txs) = []
                  then []
                  else [connectCalls wp a bh (take (k - length before * length ?txs) ?txs)]),
               db_transactions w (acc_id a), db_decryptedNotes w (acc_id a)))"
      unfolding run s using connectAccounts_reads [OF refl d2, of ch bh w sc wp] n by simp
  qed
  show ?thesis by (rule conjI [OF p1 conjI [OF p2 p3]])
qed

text \<open>
  Block \<open>[6]\<close> on the wallet with \<open>a1\<close> at \<open>[5]\<close> and \<open>a2\<close> at \<open>[3]\<close>; block \<open>[1]\<close>
  (sequence 1) and block \<open>[6]\<close> on the wallet whose account has no head; block \<open>[5]\<close>
  with its two transactions and a token aborted after one read; block \<open>[6]\<close> with a
  token aborted before the call.
\<close>

theorem connectBlock_accounts_witness:
  "accountState (fst (connectBlock exChain exHeader6 None exWorker exWalletTwo)) ''a1'' =
     (None, Some \<lparr>head_hash = [6], head_sequence = 6\<rparr>,
      [[ConnectTransaction exHeader6 exTx
          [\<lparr>dn_index = Some 0, dn_forSpender = False, dn_hash = [9], dn_nullifier = None,
            dn_serializedNote = [9]\<rparr>],
        UpdateHead (Some \<lparr>head_hash = [6], head_sequence = 6\<rparr>)]],
      (\<lambda>h. None), (\<lambda>h. None)) \<and>
   accountState (fst (connectBlock exChain exHeader6 None exWorker exWalletTwo)) ''a2'' =
     accountState exWalletTwo ''a2'' \<and>
   accountState (fst (connectBlock exChain exHeader None exWorker exWallet)) ''a1'' =
     (None, Some \<lparr>head_hash = [1], head_sequence = 1\<rparr>,
      [[UpdateHead (Some \<lparr>head_hash = [1], head_sequence = 1\<rparr>)]],
      (\<lambda>h. None), (\<lambda>h. None)) \<and>
   accountState (fst (connectBlock exChain exHeader6 None exWorker exWallet)) ''a1'' =
     accountState exWallet ''a1'' \<and>
   accountState (fst (connectBlock exChain exHeader5 (Some exScanAbortsAfterOne) exWorker
       exWalletAtFour)) ''a1'' =
     (None, Some \<lparr>head_hash = [4], head_sequence = 4\<rparr>,
      [[ConnectTransaction exHeader5 exTxFee
          [\<lparr>dn_index = Some 0, dn_forSpender = False, dn_hash = [8], dn_nullifier = None,
            dn_serializedNote = [8]\<rparr>]]],
      (\<lambda>h. None), (\<lambda>h. None)) \<and>
   accountState (fst (connectBlock exChain exHeader6 (Some exScanAborted) exWorker exWalletTwo)) ''a1'' =
     accountState exWalletTwo ''a1''"
proof -
  have s: "acc_id exAccount = ''a1''" "acc_id exAccount2 = ''a2''"
    "bh_hash exHeader6 = [6]" "bh_sequence exHeader6 = 6" "bh_previousBlockHash exHeader6 = [5]"
    "bh_hash exHeader5 = [5]" "bh_sequence exHeader5 = 5" "bh_previousBlockHash exHeader5 = [4]"
    "bh_hash exHeader = [1]" "bh_sequence exHeader = 1"
    "chain_getBlockTransactions exChain exHeader6 = [(exTx, Some 0)]"
    "chain_getBlockTransactions exChain exHeader5 = [(exTxFee, Some 0), (exTx, Some 1)]"
    "chain_getBlockTransactions exChain exHeader = []"
    by (simp_all add: exAccount_def exAccount2_def exHeader6_def exHeader5_def exHeader_def exChain_def)
  have w2: "accounts exWalletTwo = [exAccount, exAccount2]"
    "getHead exWalletTwo exAccount = Some \<lparr>head_hash = [5], head_sequence = 5\<rparr>"
    "getHead exWalletTwo exAccount2 = Some \<lparr>head_hash = [3], head_sequence = 3\<rparr>"
    "accountState exWalletTwo ''a1'' =
       (None, Some \<lparr>head_hash = [5], head_sequence = 5\<rparr>, [], (\<lambda>h. None), (\<lambda>h. None))"
    "db_accounts exWalletTwo ''a1'' = None" "db_journal exWalletTwo ''a1'' = []"
    "db_transactions exWalletTwo ''a1'' = (\<lambda>h. None)" "db_decryptedNotes exWalletTwo ''a1'' = (\<lambda>h. None)"
    "db_heads exWalletTwo ''a1'' = Some \<lparr>head_hash = [5], head_sequence = 5\<rparr>"
    by (simp_all add: exWalletTwo_def exWallet_def exAccount_def exAccount2_def getHead_def
        accountState_def)
  have w1: "accounts exWallet = [exAccount]" "getHead exWallet exAccount = None"
    "db_accounts exWallet ''a1'' = None" "db_journal exWallet ''a1'' = []"
    "db_transactions exWallet ''a1'' = (\<lambda>h. None)" "db_decryptedNotes exWallet ''a1'' = (\<lambda>h. None)"
    by (simp_all add: exWallet_def exAccount_def getHead_def)
  have w4: "accounts exWalletAtFour = [exAccount, exAccount2]"
    "getHead exWalletAtFour exAccount = Some \<lparr>head_hash = [4], head_sequence = 4\<rparr>"
    "getHead exWalletAtFour exAccount2 = Some \<lparr>head_hash = [3], head_sequence = 3\<rparr>"
    "db_accounts exWalletAtFour ''a1'' = None" "db_journal exWalletAtFour ''a1'' = []"
    "db_transactions exWalletAtFour ''a1'' = (\<lambda>h. None)"
    "db_decryptedNotes exWalletAtFour ''a1'' = (\<lambda>h. None)"
    "db_heads exWalletAtFour ''a1'' = Some \<lparr>head_hash = [4], head_sequence = 4\<rparr>"
    by (simp_all add: exWalletAtFour_def exWalletTwo_def exWallet_def exAccount_def exAccount2_def
        getHead_def)
  have d1: "distinct (map acc_id (accounts exWallet))" by (simp add: w1)
  have d4: "distinct (map acc_id (accounts exWalletAtFour))" by (simp add: w4 s)
  have m1: "exAccount \<in> set (accounts exWallet)" by (simp add: w1)
  have m4: "exAccount \<in> set (accounts exWalletAtFour)" by (simp add: w4)
  have k6: "connectCalls exWorker exAccount exHeader6 [(exTx, Some 0)] =
      [ConnectTransaction exHeader6 exTx
          [\<lparr>dn_index = Some 0, dn_forSpender = False, dn_hash = [9], dn_nullifier = None,
            dn_serializedNote = [9]\<rparr>]]"
    by (simp add: connectCalls_def decryptedFor_def decryptNotesOf_def
        exTx_def Let_def batchSize_def decryptNotesFromTransaction_def exWorker_def exDecrypt_def
        exAccount_def List.map_filter_simps)
  have k5: "connectCalls exWorker exAccount exHeader5 [(exTxFee, Some 0)] =
      [ConnectTransaction exHeader5 exTxFee
          [\<lparr>dn_index = Some 0, dn_forSpender = False, dn_hash = [8], dn_nullifier = None,
            dn_serializedNote = [8]\<rparr>]]"
    by (simp add: connectCalls_def decryptedFor_def decryptNotesOf_def
        exTxFee_def Let_def batchSize_def decryptNotesFromTransaction_def exWorker_def exDecrypt_def
        exAccount_def List.map_filter_simps)
  have k0: "\<And>bh. connectCalls exWorker exAccount bh [] = []"
    by (simp add: connectCalls_def)
  have f1: "((getHead exWalletTwo exAccount = None \<and> bh_sequence exHeader6 = 1) \<or>
       (\<exists>h. getHead exWalletTwo exAccount = Some h \<and> head_hash h = bh_previousBlockHash exHeader6)) \<and>
      (None = None \<or> (\<exists>st. None = Some st \<and> \<not> ss_isAborted st \<and> ss_abortAfter st = None))"
    by (simp add: w2 s)
  have f2: "\<not> ((getHead exWalletTwo exAccount2 = None \<and> bh_sequence exHeader6 = 1) \<or>
       (\<exists>h. getHead exWalletTwo exAccount2 = Some h \<and> head_hash h = bh_previousBlockHash exHeader6))"
    by (simp add: w2 s)
  have f3: "((getHead exWallet exAccount = None \<and> bh_sequence exHeader = 1) \<or>
       (\<exists>h. getHead exWallet exAccount = Some h \<and> head_hash h = bh_previousBlockHash exHeader)) \<and>
      (None = None \<or> (\<exists>st. None = Some st \<and> \<not> ss_isAborted st \<and> ss_abortAfter st = None))"
    by (simp add: w1 s)
  have f4: "\<not> ((getHead exWallet exAccount = None \<and> bh_sequence exHeader6 = 1) \<or>
       (\<exists>h. getHead exWallet exAccount = Some h \<and> head_hash h = bh_previousBlockHash exHeader6))"
    by (simp add: w1 s)
  have f5: "Some exScanAbortsAfterOne = Some exScanAbortsAfterOne \<and>
      (ss_isAborted exScanAbortsAfterOne \<and> (1::nat) = 0 \<or>
       \<not> ss_isAborted exScanAbortsAfterOne \<and> ss_abortAfter exScanAbortsAfterOne = Some 1) \<and>
      filter (\<lambda>b. (getHead exWalletAtFour b = None \<and> bh_sequence exHeader5 = 1) \<or>
                  (\<exists>h. getHead exWalletAtFour b = Some h \<and>
                       head_hash h = bh_previousBlockHash exHeader5))
        (accounts exWalletAtFour) = [] @ exAccount # []"
    by (simp add: w4 s exScanAbortsAfterOne_def exScanAborted_def)
  have f6: "Some exScanAborted = Some exScanAborted \<and>
      (ss_isAborted exScanAborted \<and> (0::nat) = 0 \<or>
       \<not> ss_isAborted exScanAborted \<and> ss_abortAfter exScanAborted = Some 0) \<and>
      filter (\<lambda>b. (getHead exWalletTwo b = None \<and> bh_sequence exHeader6 = 1) \<or>
                  (\<exists>h. getHead exWalletTwo b = Some h \<and>
                       head_hash h = bh_previousBlockHash exHeader6))
        (accounts exWalletTwo) = [] @ exAccount # []"
    by (simp add: w2 s exScanAborted_def)
  have c1: "accountState (fst (connectBlock exChain exHeader6 None exWorker exWalletTwo)) ''a1'' =
     (None, Some \<lparr>head_hash = [6], head_sequence = 6\<rparr>,
      [[ConnectTransaction exHeader6 exTx
          [\<lparr>dn_index = Some 0, dn_forSpender = False, dn_hash = [9], dn_nullifier = None,
            dn_serializedNote = [9]\<rparr>],
        UpdateHead (Some \<lparr>head_hash = [6], head_sequence = 6\<rparr>)]],
      (\<lambda>h. None), (\<lambda>h. None))"
    using connectBlock_accounts [OF exDistinct exMem1, where bh = exHeader6 and sc = None and ch = exChain and wp = exWorker,
        THEN conjunct2, THEN conjunct1, THEN mp, OF f1]
    by (simp add: s w2 k6)
  have c2: "accountState (fst (connectBlock exChain exHeader6 None exWorker exWalletTwo)) ''a2'' =
     accountState exWalletTwo ''a2''"
    using connectBlock_accounts [OF exDistinct exMem2, where bh = exHeader6 and sc = None and ch = exChain and wp = exWorker,
        THEN conjunct1, THEN mp, OF f2]
    by (simp add: s)
  have c3: "accountState (fst (connectBlock exChain exHeader None exWorker exWallet)) ''a1'' =
     (None, Some \<lparr>head_hash = [1], head_sequence = 1\<rparr>,
      [[UpdateHead (Some \<lparr>head_hash = [1], head_sequence = 1\<rparr>)]],
      (\<lambda>h. None), (\<lambda>h. None))"
    using connectBlock_accounts [OF d1 m1, where bh = exHeader and sc = None and ch = exChain and wp = exWorker,
        THEN conjunct2, THEN conjunct1, THEN mp, OF f3]
    by (simp add: s w1 k0)
  have c4: "accountState (fst (connectBlock exChain exHeader6 None exWorker exWallet)) ''a1'' =
     accountState exWallet ''a1''"
    using connectBlock_accounts [OF d1 m1, where bh = exHeader6 and sc = None and ch = exChain and wp = exWorker,
        THEN conjunct1, THEN mp, OF f4]
    by (simp add: s)
  have c5: "accountState (fst (connectBlock exChain exHeader5 (Some exScanAbortsAfterOne) exWorker
       exWalletAtFour)) ''a1'' =
     (None, Some \<lparr>head_hash = [4], head_sequence = 4\<rparr>,
      [[ConnectTransaction exHeader5 exTxFee
          [\<lparr>dn_index = Some 0, dn_forSpender = False, dn_hash = [8], dn_nullifier = None,
            dn_serializedNote = [8]\<rparr>]]],
      (\<lambda>h. None), (\<lambda>h. None))"
    using connectBlock_accounts [OF d4 m4, where bh = exHeader5 and sc = "Some exScanAbortsAfterOne" and ch = exChain and wp = exWorker,
        THEN conjunct2, THEN conjunct2, rule_format, OF f5]
    by (simp add: s w4 k5)
  have c6: "accountState (fst (connectBlock exChain exHeader6 (Some exScanAborted) exWorker exWalletTwo)) ''a1'' =
     accountState exWalletTwo ''a1''"
    using connectBlock_accounts [OF exDistinct exMem1, where bh = exHeader6 and sc = "Some exScanAborted" and ch = exChain and wp = exWorker,
        THEN conjunct2, THEN conjunct2, rule_format, OF f6]
    by (simp add: s w2 k0)
  show ?thesis
    by (rule conjI [OF c1 conjI [OF c2 conjI [OF c3 conjI [OF c4 conjI [OF c5 c6]]]]])
qed


lemma disconnectTransactions_calls:
  "disconnectTransactions header txs calls = calls @ concat (map (disconnectCalls header) txs)"
  by (induction txs arbitrary: calls) (auto simp: disconnectCalls_def)

lemma disconnectAccounts_frame:
  "i \<notin> acc_id ` set as \<Longrightarrow> accountState (disconnectAccounts ch header as w) i = accountState w i"
  by (induction as arbitrary: w) (auto simp: Let_def accountState_commit accountState_updateHead)

lemma disconnectAccounts_run:
  assumes "distinct (map acc_id as)" and "a \<in> set as"
  shows "accountState (disconnectAccounts ch header as w) (acc_id a) =
     (db_accounts w (acc_id a),
      Some \<lparr>head_hash = bh_previousBlockHash header, head_sequence = bh_sequence header - 1\<rparr>,
      db_journal w (acc_id a) @
        [concat (map (disconnectCalls header) (rev (chain_getBlockTransactions ch header))) @
         [UpdateHead (Some \<lparr>head_hash = bh_previousBlockHash header,
                             head_sequence = bh_sequence header - 1\<rparr>)]],
      db_transactions w (acc_id a), db_decryptedNotes w (acc_id a))"
  using assms
proof (induction as arbitrary: w)
  case Nil
  then show ?case by simp
next
  case (Cons b bs)
  let ?h = "Some \<lparr>head_hash = bh_previousBlockHash header, head_sequence = bh_sequence header - 1\<rparr>"
  let ?calls = "concat (map (disconnectCalls header) (rev (chain_getBlockTransactions ch header)))"
  let ?w1 = "commit b (?calls @ [UpdateHead ?h]) (updateHead b ?h w)"
  have step: "disconnectAccounts ch header (b # bs) w = disconnectAccounts ch header bs ?w1"
    by (simp add: Let_def disconnectTransactions_calls)
  have d: "distinct (map acc_id bs)" "acc_id b \<notin> acc_id ` set bs"
    using Cons.prems(1) by auto
  show ?case
  proof (cases "a = b")
    case True
    have "accountState (disconnectAccounts ch header bs ?w1) (acc_id a) = accountState ?w1 (acc_id a)"
      using disconnectAccounts_frame d(2) True by blast
    then show ?thesis
      using step True by (simp add: accountState_commit updateHead_def)
  next
    case False
    then have m: "a \<in> set bs" using Cons.prems(2) by simp
    then have ne: "acc_id a \<noteq> acc_id b" using d(2) by (metis imageI)
    from Cons.IH [OF d(1) m, of ?w1]
    show ?thesis
      using step ne by (simp add: commit_def updateHead_def)
  qed
qed

text \<open>
  C4. For every block header and every loaded account whose head hash equals
  \<open>header.hash\<close> (the account ids are distinct, as the keys of the \<open>Map\<close> are):
  \<open>disconnectBlock\<close> adds one database transaction to the account, which holds, for
  the transactions of the block in reverse block order, \<open>disconnectTransaction\<close> and,
  for a miner's fee, \<open>deleteTransaction\<close> right after it, and last the head
  \<open>{hash: header.previousBlockHash, sequence: header.sequence - 1}\<close>, which is the
  account's head afterwards.
\<close>

theorem disconnectBlock_accounts:
  assumes "distinct (map acc_id (accounts w))" and "a \<in> set (accounts w)"
    and "getHead w a = Some h" and "head_hash h = bh_hash header"
  shows "accountState (disconnectBlock ch header w) (acc_id a) =
     (db_accounts w (acc_id a),
      Some \<lparr>head_hash = bh_previousBlockHash header, head_sequence = bh_sequence header - 1\<rparr>,
      db_journal w (acc_id a) @
        [concat (map (disconnectCalls header) (rev (chain_getBlockTransactions ch header))) @
         [UpdateHead (Some \<lparr>head_hash = bh_previousBlockHash header,
                             head_sequence = bh_sequence header - 1\<rparr>)]],
      db_transactions w (acc_id a), db_decryptedNotes w (acc_id a))"
proof -
  have f: "disconnectFilter w header a"
    using assms(3,4) by (simp add: disconnectFilter_def equalsNullable_def)
  have d: "distinct (map acc_id (filter (disconnectFilter w header) (accounts w)))"
    using assms(1) by (simp add: distinct_map_filter)
  have m: "a \<in> set (filter (disconnectFilter w header) (accounts w))"
    using f assms(2) by simp
  show ?thesis
    using disconnectAccounts_run [OF d m] by (simp add: disconnectBlock_def listAccounts_def)
qed

theorem disconnectBlock_accounts_witness:
  "accountState (disconnectBlock exChain exHeader5 exWalletTwo) ''a1'' =
     (None, Some \<lparr>head_hash = [4], head_sequence = 4\<rparr>,
      [[DisconnectTransaction exHeader5 exTx, DisconnectTransaction exHeader5 exTxFee,
        DeleteTransaction exTxFee, UpdateHead (Some \<lparr>head_hash = [4], head_sequence = 4\<rparr>)]],
      (\<lambda>h. None), (\<lambda>h. None))"
proof -
  have h: "getHead exWalletTwo exAccount = Some \<lparr>head_hash = [5], head_sequence = 5\<rparr>"
    by (simp add: getHead_def exWalletTwo_def exWallet_def exAccount_def)
  have e: "head_hash \<lparr>head_hash = [5], head_sequence = 5\<rparr> = bh_hash exHeader5"
    by (simp add: exHeader5_def)
  have s: "db_accounts exWalletTwo ''a1'' = None" "db_journal exWalletTwo ''a1'' = []"
    "db_transactions exWalletTwo ''a1'' = (\<lambda>h. None)" "db_decryptedNotes exWalletTwo ''a1'' = (\<lambda>h. None)"
    "acc_id exAccount = ''a1''"
    "bh_previousBlockHash exHeader5 = [4]" "bh_sequence exHeader5 = 5"
    "chain_getBlockTransactions exChain exHeader5 = [(exTxFee, Some 0), (exTx, Some 1)]"
    "tx_isMinersFee exTx = False" "tx_isMinersFee exTxFee = True"
    by (simp_all add: exWalletTwo_def exWallet_def exAccount_def exHeader5_def exChain_def
        exTx_def exTxFee_def)
  show ?thesis
    using disconnectBlock_accounts [OF exDistinct exMem1 h e, of exChain] s
    by (simp add: disconnectCalls_def)
qed

subsection \<open>Rebroadcast\<close>

lemma eventLoopSignal_quiet [simp]: "eventLoopQuiet w \<Longrightarrow> eventLoopSignal w = (False, w)"
  by (simp add: eventLoopQuiet_def eventLoopSignal_def)

lemma eventLoopQuiet_frame [simp]:
  "eventLoopQuiet (w\<lparr>db_transactions := x\<rparr>) = eventLoopQuiet w"
  "eventLoopQuiet (w\<lparr>onBroadcastTransaction := y\<rparr>) = eventLoopQuiet w"
  "eventLoopQuiet (w\<lparr>chainProcessor_hash := z\<rparr>) = eventLoopQuiet w"
  by (simp_all add: eventLoopQuiet_def)

lemma rebroadcastPending_run:
  "eventLoopQuiet w \<Longrightarrow>
   rebroadcastPending ch a head rs w =
     (False,
      w\<lparr>db_transactions := (db_transactions w)
           (acc_id a := fold (resubmit head) (filter (due (rebroadcastAfter w) head) rs)
                          (db_transactions w (acc_id a))),
        onBroadcastTransaction := onBroadcastTransaction w @
           map tv_transaction
             (filter (\<lambda>r. due (rebroadcastAfter w) head r \<and>
                          chain_verifyTransactionAdd ch (tv_transaction r)) rs)\<rparr>)"
proof (induction rs arbitrary: w)
  case Nil
  then show ?case by simp
next
  case (Cons r rs)
  show ?case
  proof (cases "due (rebroadcastAfter w) head r")
    case False
    then show ?thesis
      using Cons.prems Cons.IH [OF Cons.prems] by (auto simp: due_def)
  next
    case True
    let ?t = "tv_transaction r"
    let ?w1 = "w\<lparr>db_transactions := (db_transactions w)
                   (acc_id a := resubmit head r (db_transactions w (acc_id a)))\<rparr>"
    let ?w2 = "?w1\<lparr>onBroadcastTransaction := onBroadcastTransaction w @ [?t]\<rparr>"
    have s1: "saveTransaction a (tx_hash ?t) (r\<lparr>tv_submittedSequence := bh_sequence head\<rparr>) w = ?w1"
      by (simp add: saveTransaction_def resubmit_def)
    have s2: "broadcastTransaction ?t ?w1 = ?w2"
      by (simp add: broadcastTransaction_def)
    show ?thesis
    proof (cases "chain_verifyTransactionAdd ch ?t")
      case v: True
      have step: "rebroadcastPending ch a head (r # rs) w = rebroadcastPending ch a head rs ?w2"
        using True v Cons.prems by (simp add: due_def Let_def s1 s2)
      have k: "eventLoopQuiet ?w2" using Cons.prems by simp
      show ?thesis
        unfolding step Cons.IH [OF k] using True v by (simp add: fun_upd_def cong: if_cong)
    next
      case v: False
      have step: "rebroadcastPending ch a head (r # rs) w = rebroadcastPending ch a head rs ?w1"
        using True v Cons.prems by (simp add: due_def Let_def s1)
      have k: "eventLoopQuiet ?w1" using Cons.prems by simp
      show ?thesis
        unfolding step Cons.IH [OF k] using True v by (simp add: fun_upd_def cong: if_cong)
    qed
  qed
qed

lemma rebroadcastAccounts_frame:
  "eventLoopQuiet w \<Longrightarrow>
   eventLoopQuiet (rebroadcastAccounts ch pending head as w) \<and>
   rebroadcastAfter (rebroadcastAccounts ch pending head as w) = rebroadcastAfter w \<and>
   accounts (rebroadcastAccounts ch pending head as w) = accounts w"
proof (induction as arbitrary: w)
  case Nil
  then show ?case by simp
next
  case (Cons a as)
  let ?w1 = "snd (rebroadcastPending ch a head (pending a (bh_sequence head)) w)"
  have k: "eventLoopQuiet ?w1" "rebroadcastAfter ?w1 = rebroadcastAfter w" "accounts ?w1 = accounts w"
    using Cons.prems by (simp_all add: rebroadcastPending_run)
  show ?case
    using Cons.prems Cons.IH [OF k(1)] k by (simp add: rebroadcastPending_run)
qed
















subsection \<open>Posting a transaction\<close>

lemma AList_update_fresh: "k \<notin> fst ` set al \<Longrightarrow> AList.update k v al = al @ [(k, v)]"
  by (induction al) auto

lemma pendingEntries_keys: "fst ` set (pendingEntries wp as t) \<subseteq> acc_id ` set as"
  by (induction as) (auto simp: pendingEntries_def)

lemma decryptNotesAccounts_entries:
  assumes "distinct (map acc_id as)" and "fst ` set byId \<inter> acc_id ` set as = {}"
    and "wp_decryptNotes wp2 = wp_decryptNotes wp"
  shows "fst (decryptNotesAccounts as t None (byId, wp2)) = byId @ pendingEntries wp as t"
  using assms
proof (induction as arbitrary: byId wp2)
  case Nil
  then show ?case by (simp add: pendingEntries_def)
next
  case (Cons a as)
  obtain d wp3 where p: "decryptNotesOf a t None wp2 = (d, wp3)" by (cases "decryptNotesOf a t None wp2")
  have d: "d = decryptedFor wp a (t, None)" "wp_decryptNotes wp3 = wp_decryptNotes wp"
    using decryptNotesOf_worker [OF Cons.prems(3), of a t None] p by (simp_all add: decryptedFor_def)
  have dist: "distinct (map acc_id as)" "acc_id a \<notin> acc_id ` set as" "acc_id a \<notin> fst ` set byId"
    using Cons.prems(1,2) by auto
  show ?case
  proof (cases "d = []")
    case True
    have "fst ` set byId \<inter> acc_id ` set as = {}" using Cons.prems(2) by auto
    from Cons.IH [OF dist(1) this d(2)]
    show ?thesis using True d(1) p by (simp add: pendingEntries_def)
  next
    case False
    have "fst ` set (byId @ [(acc_id a, d)]) \<inter> acc_id ` set as = {}"
      using Cons.prems(2) dist(2) by auto
    from Cons.IH [OF dist(1) this d(2)]
    show ?thesis
      using False d(1) dist(3) p by (simp add: pendingEntries_def AList_update_fresh)
  qed
qed

lemma find_acc_id:
  "distinct (map acc_id as) \<Longrightarrow> a \<in> set as \<Longrightarrow> find (\<lambda>b. acc_id b = acc_id a) as = Some a"
  by (induction as) (auto simp: rev_image_eqI)

lemma accountState_addPending:
  "accountState (accountAddPendingTransaction a t dns q w) i =
     (if i = acc_id a then addedPending t dns q (accountState w i) else accountState w i)"
  by (simp add: accountAddPendingTransaction_def accountState_def commit_def saveTransaction_def
      addedPending_def)

lemma addPending_fields:
  "accounts (accountAddPendingTransaction a t dns q w) = accounts w \<and>
   onBroadcastTransaction (accountAddPendingTransaction a t dns q w) = onBroadcastTransaction w \<and>
   onTransactionCreated (accountAddPendingTransaction a t dns q w) = onTransactionCreated w"
  by (simp add: accountAddPendingTransaction_def commit_def saveTransaction_def)

lemma addPendingEntries_fields:
  "accounts (addPendingEntries ch t es w) = accounts w \<and>
   onBroadcastTransaction (addPendingEntries ch t es w) = onBroadcastTransaction w \<and>
   onTransactionCreated (addPendingEntries ch t es w) = onTransactionCreated w"
  by (induction es arbitrary: w) (auto simp: addPending_fields split: option.splits)

lemma addPendingEntries_frame:
  "i \<notin> fst ` set es \<Longrightarrow> accountState (addPendingEntries ch t es w) i = accountState w i"
proof (induction es arbitrary: w)
  case Nil
  then show ?case by simp
next
  case (Cons e es)
  obtain k dns where e: "e = (k, dns)" by (cases e)
  have i: "i \<noteq> k" "i \<notin> fst ` set es" using Cons.prems e by auto
  show ?case
  proof (cases "getAccount w k")
    case None
    then show ?thesis using e Cons.IH [OF i(2)] by simp
  next
    case (Some b)
    then have "acc_id b = k" by (auto simp: getAccount_def dest: find_Some_iff [THEN iffD1])
    then show ?thesis
      using e Some Cons.IH [OF i(2)] i(1) by (simp add: accountState_addPending)
  qed
qed

lemma addPendingEntries_run:
  assumes "distinct (map acc_id (accounts w0))" and "accounts w = accounts w0"
    and "set as \<subseteq> set (accounts w0)" and "distinct (map acc_id as)" and "a \<in> set as"
  shows "accountState (addPendingEntries ch t (pendingEntries wp as t) w) (acc_id a) =
     (if decryptedFor wp a (t, None) = [] then accountState w (acc_id a)
      else addedPending t (decryptedFor wp a (t, None)) (bh_sequence (chain_head ch))
             (accountState w (acc_id a)))"
  using assms(2-5)
proof (induction as arbitrary: w)
  case Nil
  then show ?case by simp
next
  case (Cons b bs)
  have d: "distinct (map acc_id bs)" "acc_id b \<notin> acc_id ` set bs" "b \<in> set (accounts w0)"
    "set bs \<subseteq> set (accounts w0)"
    using Cons.prems(2,3) by auto
  have keys: "acc_id b \<notin> fst ` set (pendingEntries wp bs t)"
    using pendingEntries_keys [of wp bs t] d(2) by auto
  have g: "getAccount w (acc_id b) = Some b"
    using find_acc_id [OF assms(1) d(3)] Cons.prems(1) by (simp add: getAccount_def)
  let ?q = "bh_sequence (chain_head ch)"
  let ?d = "decryptedFor wp b (t, None)"
  let ?w1 = "accountAddPendingTransaction b t ?d ?q w"
  have step: "addPendingEntries ch t (pendingEntries wp (b # bs) t) w =
      (if ?d = [] then addPendingEntries ch t (pendingEntries wp bs t) w
       else addPendingEntries ch t (pendingEntries wp bs t) ?w1)"
    using g by (simp add: pendingEntries_def)
  have a1: "accounts ?w1 = accounts w0" using Cons.prems(1) by (simp add: addPending_fields)
  show ?case
  proof (cases "a = b")
    case True
    show ?thesis
      using True step keys addPendingEntries_frame [of "acc_id b" "pendingEntries wp bs t" ch t]
      by (simp add: accountState_addPending)
  next
    case False
    then have m: "a \<in> set bs" using Cons.prems(4) by simp
    then have ne: "acc_id a \<noteq> acc_id b" using d(2) by (metis imageI)
    show ?thesis
    proof (cases "?d = []")
      case True
      from Cons.IH [OF Cons.prems(1) d(4) d(1) m] show ?thesis using step True by simp
    next
      case False
      have e: "accountState ?w1 (acc_id a) = accountState w (acc_id a)"
        using ne by (simp add: accountState_addPending)
      from Cons.IH [OF a1 d(4) d(1) m] show ?thesis
        using step False by (simp add: e)
    qed
  qed
qed


lemma addPendingTransaction_accounts:
  assumes "distinct (map acc_id (accounts w))" and "a \<in> set (accounts w)"
  shows "accountState (fst (addPendingTransaction ch wp t w)) (acc_id a) =
     (if hasTransaction w a (tx_hash t) \<or> decryptedFor wp a (t, None) = []
      then accountState w (acc_id a)
      else addedPending t (decryptedFor wp a (t, None)) (bh_sequence (chain_head ch))
             (accountState w (acc_id a)))"
proof -
  let ?accs = "filter (\<lambda>a. \<not> hasTransaction w a (tx_hash t)) (accounts w)"
  have d: "distinct (map acc_id ?accs)" using assms(1) by (simp add: distinct_map_filter)
  have e: "fst (decryptNotes w wp t None (Some ?accs)) = pendingEntries wp ?accs t"
    using decryptNotesAccounts_entries [OF d, of "[]" wp wp t] by (simp add: decryptNotes_def)
  have r: "fst (addPendingTransaction ch wp t w) = addPendingEntries ch t (pendingEntries wp ?accs t) w"
  proof (cases "?accs = []")
    case True
    then show ?thesis
      by (simp add: addPendingTransaction_def listAccounts_def pendingEntries_def)
  next
    case False
    then show ?thesis
      using e by (auto simp: addPendingTransaction_def listAccounts_def split: prod.splits)
  qed
  show ?thesis
  proof (cases "hasTransaction w a (tx_hash t)")
    case True
    then have "acc_id a \<notin> acc_id ` set ?accs"
      using acc_id_filter [OF assms(1,2), of "\<lambda>a. \<not> hasTransaction w a (tx_hash t)"] by simp
    then have "acc_id a \<notin> fst ` set (pendingEntries wp ?accs t)"
      using pendingEntries_keys [of wp ?accs t] by auto
    then show ?thesis using True r by (simp add: addPendingEntries_frame)
  next
    case False
    then have m: "a \<in> set ?accs" using assms(2) by simp
    have sub: "set ?accs \<subseteq> set (accounts w)" by auto
    show ?thesis
      using addPendingEntries_run [OF assms(1) refl sub d m, of ch t wp] False r by simp
  qed
qed

lemma addPendingTransaction_fields:
  "onBroadcastTransaction (fst (addPendingTransaction ch wp t w)) = onBroadcastTransaction w \<and>
   onTransactionCreated (fst (addPendingTransaction ch wp t w)) = onTransactionCreated w"
  by (simp add: addPendingTransaction_def Let_def addPendingEntries_fields split: prod.splits)

text \<open>
  C8 as stated fails in its second part: a valid post need not add a pending
  transaction. With a worker pool that decrypts none of the notes of the posted
  transaction for a loaded account, \<open>postTransaction\<close> returns the transaction, hands
  it to the mempool and emits both events, while \<open>addPendingTransaction\<close> calls
  \<open>account.addPendingTransaction\<close> on no account: no account has a record of the
  transaction and no call is journalled.
\<close>

theorem postTransaction_noPending_counterexample:
  "chain_verifyCreatedTransaction exChain
     (wp_postTransaction exWorkerBlind exRaw) \<and>
   fst (postTransaction exChain exWorkerBlind exRaw []
          exWalletTwo) = Inr exTx \<and>
   fst (snd (snd (postTransaction exChain exWorkerBlind exRaw []
          exWalletTwo))) = [exTx] \<and>
   onBroadcastTransaction (fst (snd (postTransaction exChain
          exWorkerBlind exRaw [] exWalletTwo))) = [exTx] \<and>
   onTransactionCreated (fst (snd (postTransaction exChain
          exWorkerBlind exRaw [] exWalletTwo))) = [exTx] \<and>
   db_transactions (fst (snd (postTransaction exChain
          exWorkerBlind exRaw [] exWalletTwo))) ''a1'' (tx_hash exTx)
     = None \<and>
   db_transactions (fst (snd (postTransaction exChain
          exWorkerBlind exRaw [] exWalletTwo))) ''a2'' (tx_hash exTx)
     = None \<and>
   db_journal (fst (snd (postTransaction exChain
          exWorkerBlind exRaw [] exWalletTwo))) ''a1'' = [] \<and>
   db_journal (fst (snd (postTransaction exChain
          exWorkerBlind exRaw [] exWalletTwo))) ''a2'' = []"
  by (simp add: postTransaction_def addPendingTransaction_def decryptNotes_def decryptNotesOf_def
      decryptNotesFromTransaction_def hasTransaction_def listAccounts_def broadcastTransaction_def
      Let_def batchSize_def ifTruthy_def List.map_filter_simps
      exChain_def exWorkerBlind_def exWorker_def exTx_def exWalletTwo_def exWallet_def exAccount_def exAccount2_def)

text \<open>
  C8, amended. If the verifier reports the posted transaction invalid, \<open>postTransaction\<close>
  throws and leaves the wallet, the mempool and the worker pool as they were: no
  pending transaction, no \<open>acceptTransaction\<close>, no event. If it reports it valid,
  \<open>postTransaction\<close> returns the transaction, hands it to \<open>memPool.acceptTransaction\<close>,
  emits the broadcast event and the created event once each, and (account ids
  distinct as the keys of the \<open>Map\<close> are) adds it as pending, with the head sequence of
  the chain as submitted sequence, to every loaded account that does not have it and
  for which the worker pool decrypts one of its notes; every other account is
  unchanged, so that no pending transaction is added when there is no such account.
\<close>

theorem postTransaction_effects:
  "(\<not> chain_verifyCreatedTransaction ch (wp_postTransaction wp raw) \<longrightarrow>
      postTransaction ch wp raw memPool w = (Inl InvalidTransaction, w, memPool, wp)) \<and>
   (chain_verifyCreatedTransaction ch (wp_postTransaction wp raw) \<longrightarrow>
      (\<exists>w1 wp1. postTransaction ch wp raw memPool w =
           (Inr (wp_postTransaction wp raw), w1, memPool @ [wp_postTransaction wp raw], wp1) \<and>
         onBroadcastTransaction w1 = onBroadcastTransaction w @ [wp_postTransaction wp raw] \<and>
         onTransactionCreated w1 = onTransactionCreated w @ [wp_postTransaction wp raw] \<and>
         (distinct (map acc_id (accounts w)) \<longrightarrow>
            (\<forall>a\<in>set (accounts w).
               accountState w1 (acc_id a) =
                 (if hasTransaction w a (tx_hash (wp_postTransaction wp raw)) \<or>
                     decryptedFor wp a (wp_postTransaction wp raw, None) = []
                  then accountState w (acc_id a)
                  else addedPending (wp_postTransaction wp raw)
                         (decryptedFor wp a (wp_postTransaction wp raw, None))
                         (bh_sequence (chain_head ch)) (accountState w (acc_id a)))))))"
proof (intro conjI impI)
  assume "\<not> chain_verifyCreatedTransaction ch (wp_postTransaction wp raw)"
  then show "postTransaction ch wp raw memPool w = (Inl InvalidTransaction, w, memPool, wp)"
    by (simp add: postTransaction_def)
next
  let ?t = "wp_postTransaction wp raw"
  assume v: "chain_verifyCreatedTransaction ch ?t"
  obtain wa wpa where p: "addPendingTransaction ch wp ?t w = (wa, wpa)"
    by (cases "addPendingTransaction ch wp ?t w")
  let ?w1 = "wa\<lparr>onBroadcastTransaction := onBroadcastTransaction wa @ [?t],
                 onTransactionCreated := onTransactionCreated wa @ [?t]\<rparr>"
  have r: "postTransaction ch wp raw memPool w = (Inr ?t, ?w1, memPool @ [?t], wpa)"
    using v p by (simp add: postTransaction_def Let_def broadcastTransaction_def)
  have f: "onBroadcastTransaction wa = onBroadcastTransaction w"
    "onTransactionCreated wa = onTransactionCreated w"
    using addPendingTransaction_fields [of ch wp ?t w] p by simp_all
  have s: "\<And>i. accountState ?w1 i = accountState wa i" by (simp add: accountState_def)
  have a: "distinct (map acc_id (accounts w)) \<longrightarrow>
            (\<forall>a\<in>set (accounts w).
               accountState ?w1 (acc_id a) =
                 (if hasTransaction w a (tx_hash ?t) \<or> decryptedFor wp a (?t, None) = []
                  then accountState w (acc_id a)
                  else addedPending ?t (decryptedFor wp a (?t, None))
                         (bh_sequence (chain_head ch)) (accountState w (acc_id a))))"
    using addPendingTransaction_accounts [of w _ ch wp ?t] p by (simp add: s)
  show "\<exists>w1 wp1. postTransaction ch wp raw memPool w = (Inr ?t, w1, memPool @ [?t], wp1) \<and>
         onBroadcastTransaction w1 = onBroadcastTransaction w @ [?t] \<and>
         onTransactionCreated w1 = onTransactionCreated w @ [?t] \<and>
         (distinct (map acc_id (accounts w)) \<longrightarrow>
            (\<forall>a\<in>set (accounts w).
               accountState w1 (acc_id a) =
                 (if hasTransaction w a (tx_hash ?t) \<or> decryptedFor wp a (?t, None) = []
                  then accountState w (acc_id a)
                  else addedPending ?t (decryptedFor wp a (?t, None))
                         (bh_sequence (chain_head ch)) (accountState w (acc_id a)))))"
    apply (rule exI [of _ ?w1], rule exI [of _ wpa])
    using r f a by simp
qed

theorem postTransaction_effects_witness:
  "postTransaction exChain (exWorker\<lparr>wp_postTransaction := (\<lambda>raw. exTxBad)\<rparr>) exRaw [] exWalletTwo =
     (Inl InvalidTransaction, exWalletTwo, [], exWorker\<lparr>wp_postTransaction := (\<lambda>raw. exTxBad)\<rparr>) \<and>
   (\<exists>w1 wp1. postTransaction exChain exWorker exRaw [] exWalletTwo = (Inr exTx, w1, [exTx], wp1) \<and>
      onBroadcastTransaction w1 = [exTx] \<and> onTransactionCreated w1 = [exTx] \<and>
      accountState w1 ''a1'' =
        (None, Some \<lparr>head_hash = [5], head_sequence = 5\<rparr>,
         [[AddPendingTransaction exTx
            [\<lparr>dn_index = None, dn_forSpender = False, dn_hash = [9], dn_nullifier = None,
              dn_serializedNote = [9]\<rparr>] 1]],
         (\<lambda>h. None)([41] := Some (exRecord exTx None 1)), (\<lambda>h. None)) \<and>
      accountState w1 ''a2'' = accountState exWalletTwo ''a2'')"
proof -
  let ?bad = "exWorker\<lparr>wp_postTransaction := (\<lambda>raw. exTxBad)\<rparr>"
  have nv: "\<not> chain_verifyCreatedTransaction exChain (wp_postTransaction ?bad exRaw)"
    by (simp add: exChain_def exTxBad_def)
  have v: "chain_verifyCreatedTransaction exChain (wp_postTransaction exWorker exRaw)"
    by (simp add: exChain_def exWorker_def exTx_def)
  have d: "distinct (map acc_id (accounts exWalletTwo))"
    by (simp add: exWalletTwo_def exWallet_def exAccount_def exAccount2_def)
  have t: "wp_postTransaction exWorker exRaw = exTx" by (simp add: exWorker_def)
  have d1: "decryptedFor exWorker exAccount (exTx, None) =
      [\<lparr>dn_index = None, dn_forSpender = False, dn_hash = [9], dn_nullifier = None,
        dn_serializedNote = [9]\<rparr>]"
    by (simp add: decryptedFor_def decryptNotesOf_def exTx_def Let_def batchSize_def
        decryptNotesFromTransaction_def exWorker_def exDecrypt_def exAccount_def
        List.map_filter_simps ifTruthy_def)
  have d2: "decryptedFor exWorker exAccount2 (exTx, None) = []"
    by (simp add: decryptedFor_def decryptNotesOf_def exTx_def Let_def batchSize_def
        decryptNotesFromTransaction_def exWorker_def exDecrypt_def exAccount2_def
        List.map_filter_simps ifTruthy_def)
  have e: "accounts exWalletTwo = [exAccount, exAccount2]"
    "acc_id exAccount = ''a1''" "acc_id exAccount2 = ''a2''"
    "onBroadcastTransaction exWalletTwo = []" "onTransactionCreated exWalletTwo = []"
    "\<not> hasTransaction exWalletTwo exAccount [41]"
    "bh_sequence (chain_head exChain) = 1" "tx_hash exTx = [41]"
    "accountState exWalletTwo ''a1'' =
       (None, Some \<lparr>head_hash = [5], head_sequence = 5\<rparr>, [], (\<lambda>h. None), (\<lambda>h. None))"
    by (simp_all add: exWalletTwo_def exWallet_def exAccount_def exAccount2_def hasTransaction_def
        exChain_def exHeader_def exTx_def accountState_def)
  from postTransaction_effects [of exChain exWorker exRaw "[]" exWalletTwo, THEN conjunct2, THEN mp, OF v]
  obtain w1 wp1 where w0:
    "postTransaction exChain exWorker exRaw [] exWalletTwo =
       (Inr (wp_postTransaction exWorker exRaw), w1, [] @ [wp_postTransaction exWorker exRaw], wp1)"
    "onBroadcastTransaction w1 = onBroadcastTransaction exWalletTwo @ [wp_postTransaction exWorker exRaw]"
    "onTransactionCreated w1 = onTransactionCreated exWalletTwo @ [wp_postTransaction exWorker exRaw]"
    "distinct (map acc_id (accounts exWalletTwo)) \<longrightarrow>
       (\<forall>a\<in>set (accounts exWalletTwo).
          accountState w1 (acc_id a) =
            (if hasTransaction exWalletTwo a (tx_hash (wp_postTransaction exWorker exRaw)) \<or>
                decryptedFor exWorker a (wp_postTransaction exWorker exRaw, None) = []
             then accountState exWalletTwo (acc_id a)
             else addedPending (wp_postTransaction exWorker exRaw)
                    (decryptedFor exWorker a (wp_postTransaction exWorker exRaw, None))
                    (bh_sequence (chain_head exChain)) (accountState exWalletTwo (acc_id a))))"
    by blast
  have w: "postTransaction exChain exWorker exRaw [] exWalletTwo = (Inr exTx, w1, [exTx], wp1)"
    "onBroadcastTransaction w1 = [exTx]" "onTransactionCreated w1 = [exTx]"
    using w0(1,2,3) by (simp_all add: t e)
  have w4: "accountState w1 ''a1'' = addedPending exTx (decryptedFor exWorker exAccount (exTx, None)) 1
        (accountState exWalletTwo ''a1'')"
    "accountState w1 ''a2'' = accountState exWalletTwo ''a2''"
    using w0(4) d by (simp_all add: t e d1 d2)
  have "accountState w1 ''a1'' =
        (None, Some \<lparr>head_hash = [5], head_sequence = 5\<rparr>,
         [[AddPendingTransaction exTx
            [\<lparr>dn_index = None, dn_forSpender = False, dn_hash = [9], dn_nullifier = None,
              dn_serializedNote = [9]\<rparr>] 1]],
         (\<lambda>h. None)([41] := Some (exRecord exTx None 1)), (\<lambda>h. None))"
    using w4(1) by (simp add: d1 e addedPending_def exRecord_def)
  then show ?thesis
    using postTransaction_effects [of exChain ?bad exRaw "[]" exWalletTwo, THEN conjunct1, THEN mp, OF nv]
      w w4(2) by blast
qed

end
